theory Spec2Isabelle
  imports Main
begin

section \<open>The autocomplete hook \<open>useAutocomplete\<close>\<close>

text \<open>
  A shallow embedding of the React hook \<open>useAutocomplete\<close> (file \<open>useAutocomplete.ts\<close>)
  and of the constants it reads from \<open>constants.ts\<close>.

  The hook is asynchronous: its timer callback and its promise continuations run
  interleaved with the calls of the rendering layer. The embedding makes this explicit.
  The state of one hook instance is a record holding the seven \<open>useState\<close> cells, the four
  \<open>useRef\<close> cells, and the part of the JavaScript runtime the hook talks to: the armed
  debounce timers, the abort controllers it has created, the suspended \<open>async\<close> functions,
  and a log of the calls made to \<open>fetchFn\<close> and \<open>selectionFn\<close>. Every entry point of
  the hook and every resumption of a suspended function is an event; one event runs its
  handler to the next \<open>await\<close> and then the effects React runs after the render.

  Strings are lists of 8-bit characters, read as the code points U+0000 to U+00FF; the
  item type \<open>T\<close> is the default \<open>string\<close>; JavaScript numbers are \<open>int\<close>.
\<close>

subsection \<open>Constants (\<open>DEFAULT_CONFIG\<close> of \<open>constants.ts\<close>)\<close>

definition DEBOUNCE_MS :: int where "DEBOUNCE_MS = 300"
definition MIN_CHARS :: int where "MIN_CHARS = 1"
definition MAX_CACHE_SIZE :: int where "MAX_CACHE_SIZE = 50"
definition RETRY_ATTEMPTS :: int where "RETRY_ATTEMPTS = 2"
definition BACKOFF_BASE_MS :: int where "BACKOFF_BASE_MS = 150"

subsection \<open>Strings: \<open>trim\<close> and \<open>toLowerCase\<close>\<close>

text \<open>
  The white space and line terminators of ECMAScript below U+0100: TAB, LF, VT, FF, CR,
  SP and NBSP.
\<close>

definition isWhiteSpace :: "char \<Rightarrow> bool" where
  "isWhiteSpace c = ((of_char c :: nat) \<in> {9, 10, 11, 12, 13, 32, 160})"

definition trim :: "string \<Rightarrow> string" where
  "trim s = rev (dropWhile isWhiteSpace (rev (dropWhile isWhiteSpace s)))"

text \<open>
  Lower-casing below U+0100: \<open>A\<close> to \<open>Z\<close> and U+00C0 to U+00DE without the
  multiplication sign U+00D7 move up by 32.
\<close>

definition lowerChar :: "char \<Rightarrow> char" where
  "lowerChar c =
     (let n = (of_char c :: nat)
      in if (65 \<le> n \<and> n \<le> 90) \<or> (192 \<le> n \<and> n \<le> 222 \<and> n \<noteq> 215)
         then char_of (n + 32) else c)"

definition toLowerCase :: "string \<Rightarrow> string" where
  "toLowerCase s = map lowerChar s"

subsection \<open>The cache: a JavaScript \<open>Map\<close> in insertion order\<close>

type_synonym cache = "(string \<times> string list) list"

text \<open>\<open>Map.prototype.set\<close>: an existing key keeps its place, a new key goes last.\<close>

fun mapSet :: "string \<Rightarrow> string list \<Rightarrow> cache \<Rightarrow> cache" where
  "mapSet k v [] = [(k, v)]"
| "mapSet k v ((k', v') # m) = (if k' = k then (k, v) # m else (k', v') # mapSet k v m)"

definition mapDelete :: "string \<Rightarrow> cache \<Rightarrow> cache" where
  "mapDelete k m = filter (\<lambda>p. fst p \<noteq> k) m"

definition mapGet :: "cache \<Rightarrow> string \<Rightarrow> string list option" where
  "mapGet m k = map_of m k"

text \<open>
  The cache write of the fetch continuation:
  \<^verbatim>\<open>
  cacheRef.current.set(key, arr);
  if (cacheRef.current.size > maxCache) {
    const first = cacheRef.current.keys().next();
    if (!first.done) cacheRef.current.delete(first.value);
  }
  \<close>
\<close>

definition cacheStore :: "int \<Rightarrow> string \<Rightarrow> string list \<Rightarrow> cache \<Rightarrow> cache" where
  "cacheStore maxCache key arr m =
     (let m1 = mapSet key arr m
      in if int (length m1) > maxCache
         then (case m1 of [] \<Rightarrow> m1 | first # _ \<Rightarrow> mapDelete (fst first) m1)
         else m1)"

subsection \<open>State\<close>

text \<open>What a call of \<open>fetchFn\<close> or \<open>selectionFn\<close> resolves to.\<close>

datatype payload = Array "string list" | NotArray

text \<open>\<^verbatim>\<open>Array.isArray(data) ? data as T[] : []\<close>\<close>

fun coerce :: "payload \<Rightarrow> string list" where
  "coerce (Array xs) = xs"
| "coerce NotArray = []"

text \<open>
  An armed debounce timer holds the closure of the effect that armed it (\<open>q\<close>, \<open>key\<close>)
  and its delay.
\<close>

datatype timer = Debounce string string int

text \<open>
  A suspended \<open>async\<close> function, named by the abort controller it created: the debounced
  fetch waiting for attempt \<open>attempt\<close> of \<open>fetchFn(q)\<close>, the same function waiting for
  its backoff timer of the given delay, or \<open>handleSelection\<close> waiting for \<open>selectionFn\<close>.
\<close>

datatype task =
    FetchPending string string int
  | BackoffWait string string int int
  | SelectionPending

datatype call = FetchCall string nat | SelectionCall string nat

record state =
  input :: string
  query :: string
  suggestions :: "string list"
  loading :: bool
  error :: "string option"
  highlight :: int
  noResults :: bool
  debounceRef :: "nat option"
  abortRef :: "nat option"
  cacheRef :: cache
  lastSuggestionsSizeRef :: int
  timers :: "nat \<rightharpoonup> timer"
  nextTimer :: nat
  aborted :: "nat set"
  nextController :: nat
  tasks :: "nat \<rightharpoonup> task"
  calls :: "call list"

text \<open>
  The parameters after destructuring with defaults. \<open>fetchFn\<close> is required and abstract:
  its outcomes arrive as events. \<open>selectionFn\<close> is optional.
\<close>

record config =
  hasSelectionFn :: bool
  debounceMs :: int
  minChars :: int
  maxCache :: int

text \<open>
  The argument object of \<open>useAutocomplete\<close> before destructuring: the optional
  properties the pattern reads, and any other numeric properties the object carries,
  which the pattern does not read.
\<close>

record params =
  selectionFnGiven :: bool
  debounceMsGiven :: "int option"
  minCharsGiven :: "int option"
  maxCacheGiven :: "int option"
  otherProps :: "(string \<times> int) list"

definition destructure :: "params \<Rightarrow> config" where
  "destructure p =
     \<lparr> hasSelectionFn = selectionFnGiven p,
       debounceMs = (case debounceMsGiven p of None \<Rightarrow> DEBOUNCE_MS | Some d \<Rightarrow> d),
       minChars = (case minCharsGiven p of None \<Rightarrow> MIN_CHARS | Some n \<Rightarrow> n),
       maxCache = (case maxCacheGiven p of None \<Rightarrow> MAX_CACHE_SIZE | Some n \<Rightarrow> n) \<rparr>"

definition init :: state where
  "init =
     \<lparr> input = [], query = [], suggestions = [], loading = False, error = None,
       highlight = - 1, noResults = False,
       debounceRef = None, abortRef = None, cacheRef = [], lastSuggestionsSizeRef = 0,
       timers = Map.empty, nextTimer = 1, aborted = {}, nextController = 0,
       tasks = Map.empty, calls = [] \<rparr>"

subsection \<open>The synchronous actions\<close>

definition clear :: "state \<Rightarrow> state" where
  "clear s = s\<lparr> input := [], query := [], suggestions := [], highlight := - 1,
                noResults := False, error := None \<rparr>"

definition updateInput :: "config \<Rightarrow> string \<Rightarrow> state \<Rightarrow> state" where
  "updateInput cfg val s =
     (let s1 = s\<lparr> input := val, highlight := - 1 \<rparr>
      in if int (length val) \<ge> minChars cfg
         then s1\<lparr> query := val \<rparr>
         else s1\<lparr> query := [], suggestions := [], noResults := False, error := None \<rparr>)"

text \<open>
  The updater of \<open>moveHighlight\<close>, on the length of the suggestion list:
  \<^verbatim>\<open>
  if (!suggestions.length) return -1;
  let next = prev + delta;
  if (next < 0) next = suggestions.length - 1;
  if (next >= suggestions.length) next = 0;
  return next;
  \<close>
\<close>

definition nextHighlight :: "nat \<Rightarrow> int \<Rightarrow> int \<Rightarrow> int" where
  "nextHighlight len prev delta =
     (if len = 0 then - 1
      else let next = prev + delta;
               next = (if next < 0 then int len - 1 else next);
               next = (if next \<ge> int len then 0 else next)
           in next)"

definition moveHighlight :: "int \<Rightarrow> state \<Rightarrow> state" where
  "moveHighlight delta s =
     s\<lparr> highlight := nextHighlight (length (suggestions s)) (highlight s) delta \<rparr>"

definition setHighlightIndex :: "int \<Rightarrow> state \<Rightarrow> state" where
  "setHighlightIndex idx s =
     (if idx < - 1 \<or> idx \<ge> int (length (suggestions s)) then s
      else s\<lparr> highlight := idx \<rparr>)"

definition setSuggestions :: "string list \<Rightarrow> state \<Rightarrow> state" where
  "setSuggestions sugs s = s\<lparr> suggestions := sugs \<rparr>"

subsection \<open>The query effect and the debounced fetch\<close>

text \<open>
  The first two statements of the query effect, which its cleanup repeats:
  \<^verbatim>\<open>
  if (debounceRef.current) window.clearTimeout(debounceRef.current);
  if (abortRef.current) abortRef.current.abort();
  \<close>
  Timer identifiers are positive, so the first test asks whether the cell is set.
\<close>

definition cancelPending :: "state \<Rightarrow> state" where
  "cancelPending s =
     s\<lparr> timers := (case debounceRef s of None \<Rightarrow> timers s | Some t \<Rightarrow> (timers s)(t := None)),
        aborted := (case abortRef s of None \<Rightarrow> aborted s | Some c \<Rightarrow> insert c (aborted s)) \<rparr>"

text \<open>
  The body of the query effect up to arming the timer. React runs the cleanup of the
  previous run first; it exists only when that run armed a timer and does what
  \<open>cancelPending\<close> does, which is idempotent.
\<close>

definition queryEffect :: "config \<Rightarrow> state \<Rightarrow> state" where
  "queryEffect cfg s =
     (let s1 = cancelPending s;
          q = trim (query s1)
      in if q = [] then s1
         else let key = toLowerCase q
              in case mapGet (cacheRef s1) key of
                   Some data \<Rightarrow> s1\<lparr> suggestions := data, noResults := (data = []) \<rparr>
                 | None \<Rightarrow>
                     s1\<lparr> debounceRef := Some (nextTimer s1),
                         timers := (timers s1)(nextTimer s1 \<mapsto> Debounce q key (debounceMs cfg)),
                         nextTimer := Suc (nextTimer s1) \<rparr>)"

text \<open>
  The head of the retry loop, \<open>for (...; attempt < maxAttempts; ...)\<close>, with the call
  \<open>fetchFn(q, { signal: controller.signal })\<close> at which the function suspends. When the
  test fails the function returns.
\<close>

definition attemptFetch :: "nat \<Rightarrow> string \<Rightarrow> string \<Rightarrow> int \<Rightarrow> state \<Rightarrow> state" where
  "attemptFetch c q key attempt s =
     (if attempt < RETRY_ATTEMPTS
      then s\<lparr> tasks := (tasks s)(c \<mapsto> FetchPending q key attempt),
              calls := calls s @ [FetchCall q c] \<rparr>
      else s\<lparr> tasks := (tasks s)(c := None) \<rparr>)"

text \<open>The timer callback, from its first statement to the first \<open>await\<close>.\<close>

definition timerFire :: "nat \<Rightarrow> state \<Rightarrow> state" where
  "timerFire t s =
     (case timers s t of
        None \<Rightarrow> s
      | Some (Debounce q key d) \<Rightarrow>
          let c = nextController s
          in attemptFetch c q key 0
               (s\<lparr> timers := (timers s)(t := None),
                   loading := True, error := None, noResults := False,
                   nextController := Suc c, abortRef := Some c \<rparr>))"

text \<open>The continuation after \<open>await fetchFn(...)\<close> resolves.\<close>

definition fetchResolved :: "config \<Rightarrow> nat \<Rightarrow> string \<Rightarrow> payload \<Rightarrow> state \<Rightarrow> state" where
  "fetchResolved cfg c key data s =
     (let s1 = s\<lparr> tasks := (tasks s)(c := None) \<rparr>
      in if c \<in> aborted s then s1
         else let arr = coerce data
              in s1\<lparr> cacheRef := cacheStore (maxCache cfg) key arr (cacheRef s),
                     suggestions := arr, noResults := (arr = []), loading := False \<rparr>)"

text \<open>The \<open>catch\<close> block of the retry loop.\<close>

definition fetchRejected :: "nat \<Rightarrow> string \<Rightarrow> string \<Rightarrow> int \<Rightarrow> state \<Rightarrow> state" where
  "fetchRejected c q key attempt s =
     (if c \<in> aborted s then s\<lparr> tasks := (tasks s)(c := None) \<rparr>
      else if attempt = RETRY_ATTEMPTS - 1
      then s\<lparr> tasks := (tasks s)(c := None),
              error := Some ''Failed to fetch'', suggestions := [], loading := False \<rparr>
      else s\<lparr> tasks := (tasks s)(c \<mapsto> BackoffWait q key attempt (BACKOFF_BASE_MS * (attempt + 1))) \<rparr>)"

subsection \<open>\<open>handleSelection\<close>\<close>

definition handleSelection :: "config \<Rightarrow> string \<Rightarrow> state \<Rightarrow> state" where
  "handleSelection cfg val s =
     (if \<not> hasSelectionFn cfg then s
      else let c = nextController s
           in s\<lparr> loading := True, error := None, noResults := False,
                 nextController := Suc c, abortRef := Some c,
                 tasks := (tasks s)(c \<mapsto> SelectionPending),
                 calls := calls s @ [SelectionCall val c] \<rparr>)"

definition selectionResolved :: "nat \<Rightarrow> payload \<Rightarrow> state \<Rightarrow> state" where
  "selectionResolved c data s =
     (let s1 = s\<lparr> tasks := (tasks s)(c := None) \<rparr>
      in if c \<in> aborted s then s1
         else let arr = coerce data
              in s1\<lparr> suggestions := arr, noResults := (arr = []), loading := False,
                     highlight := - 1 \<rparr>)"

definition selectionRejected :: "nat \<Rightarrow> state \<Rightarrow> state" where
  "selectionRejected c s =
     (let s1 = s\<lparr> tasks := (tasks s)(c := None) \<rparr>
      in if c \<in> aborted s then s1
         else s1\<lparr> error := Some ''Failed to fetch related suggestions'',
                 suggestions := [], loading := False \<rparr>)"

subsection \<open>Events\<close>

text \<open>
  The calls of the rendering layer, the firing of a debounce timer, the settling of the
  promise a suspended function waits for, and the end of a backoff wait. An event that
  names a timer that is not armed or a function that is not suspended there changes
  nothing.
\<close>

datatype event =
    UpdateInput string
  | Clear
  | MoveHighlight int
  | SetHighlightIndex int
  | SetSuggestions "string list"
  | HandleSelection string
  | TimerFire nat
  | Resolve nat payload
  | Reject nat
  | BackoffDone nat

fun handler :: "config \<Rightarrow> event \<Rightarrow> state \<Rightarrow> state" where
  "handler cfg (UpdateInput val) s = updateInput cfg val s"
| "handler cfg Clear s = clear s"
| "handler cfg (MoveHighlight delta) s = moveHighlight delta s"
| "handler cfg (SetHighlightIndex idx) s = setHighlightIndex idx s"
| "handler cfg (SetSuggestions sugs) s = setSuggestions sugs s"
| "handler cfg (HandleSelection val) s = handleSelection cfg val s"
| "handler cfg (TimerFire t) s = timerFire t s"
| "handler cfg (Resolve c data) s =
     (case tasks s c of
        Some (FetchPending q key attempt) \<Rightarrow> fetchResolved cfg c key data s
      | Some SelectionPending \<Rightarrow> selectionResolved c data s
      | _ \<Rightarrow> s)"
| "handler cfg (Reject c) s =
     (case tasks s c of
        Some (FetchPending q key attempt) \<Rightarrow> fetchRejected c q key attempt s
      | Some SelectionPending \<Rightarrow> selectionRejected c s
      | _ \<Rightarrow> s)"
| "handler cfg (BackoffDone c) s =
     (case tasks s c of
        Some (BackoffWait q key attempt d) \<Rightarrow> attemptFetch c q key (attempt + 1) s
      | _ \<Rightarrow> s)"

text \<open>
  The second effect:
  \<^verbatim>\<open>
  if (highlight >= suggestions.length) setHighlight(-1);
  lastSuggestionsSizeRef.current = suggestions.length;
  \<close>
  React runs it after a render in which \<open>suggestions\<close> or \<open>highlight\<close> changed. It
  depends on nothing else and running it twice is running it once, so the model runs it
  after every event.
\<close>

definition highlightEffect :: "state \<Rightarrow> state" where
  "highlightEffect s =
     (let s1 = (if highlight s \<ge> int (length (suggestions s)) then s\<lparr> highlight := - 1 \<rparr> else s)
      in s1\<lparr> lastSuggestionsSizeRef := int (length (suggestions s1)) \<rparr>)"

text \<open>
  The effects after the render that follows a handler: the query effect when \<open>query\<close>
  changed (its other dependencies are the parameters, which are fixed), then the
  highlight effect.
\<close>

definition flushEffects :: "config \<Rightarrow> state \<Rightarrow> state \<Rightarrow> state" where
  "flushEffects cfg old s =
     highlightEffect (if query s \<noteq> query old then queryEffect cfg s else s)"

definition step :: "config \<Rightarrow> event \<Rightarrow> state \<Rightarrow> state" where
  "step cfg ev s = flushEffects cfg s (handler cfg ev s)"

fun run :: "config \<Rightarrow> event list \<Rightarrow> state \<Rightarrow> state" where
  "run cfg [] s = s"
| "run cfg (ev # evs) s = run cfg evs (step cfg ev s)"

text \<open>
  A suspended function is live when its controller has not been aborted: its
  continuation will pass the test \<open>controller.signal.aborted\<close> and write.
\<close>

definition live :: "state \<Rightarrow> nat \<Rightarrow> bool" where
  "live s c = (tasks s c \<noteq> None \<and> c \<notin> aborted s)"

subsection \<open>Counting calls\<close>

fun isFetchCallOf :: "nat \<Rightarrow> call \<Rightarrow> bool" where
  "isFetchCallOf c (FetchCall q c') = (c' = c)"
| "isFetchCallOf c (SelectionCall v c') = False"

text \<open>The calls of \<open>fetchFn\<close> made so far by the retry loop that created controller \<open>c\<close>.\<close>

definition attemptsOf :: "nat \<Rightarrow> state \<Rightarrow> nat" where
  "attemptsOf c s = length (filter (isFetchCallOf c) (calls s))"

fun isSelectionCall :: "call \<Rightarrow> bool" where
  "isSelectionCall (SelectionCall v c) = True"
| "isSelectionCall (FetchCall q c) = False"

text \<open>The calls of \<open>selectionFn\<close> made so far.\<close>

definition selectionCalls :: "state \<Rightarrow> nat" where
  "selectionCalls s = length (filter isSelectionCall (calls s))"

fun isHandleSelection :: "event \<Rightarrow> bool" where
  "isHandleSelection (HandleSelection v) = True"
| "isHandleSelection ev = False"

text \<open>The cache writes of a sequence of successful fetches, starting from the empty cache.\<close>

definition cacheInsertAll :: "int \<Rightarrow> (string \<times> string list) list \<Rightarrow> cache" where
  "cacheInsertAll capacity kvs =
     foldl (\<lambda>m kv. cacheStore capacity (fst kv) (snd kv) m) [] kvs"

subsection \<open>The earlier copy of the hook\<close>

text \<open>
  The repository holds an earlier copy of the hook, without \<open>handleSelection\<close> and
  without the constants file. Its query effect differs in the key: it looks the trimmed
  query up, and later stores the result, under \<open>q\<close> itself:
  \<^verbatim>\<open>
  const q = query.trim();
  if (!q) return;
  if (cacheRef.current.has(q)) {
    const data = cacheRef.current.get(q)!;
    setSuggestions(data);
    setNoResults(data.length === 0);
    return;
  }
  \<close>
  The application imports the later copy, which the rest of this theory models.
\<close>

definition queryEffectEarlier :: "config \<Rightarrow> state \<Rightarrow> state" where
  "queryEffectEarlier cfg s =
     (let s1 = cancelPending s;
          q = trim (query s1)
      in if q = [] then s1
         else case mapGet (cacheRef s1) q of
                Some data \<Rightarrow> s1\<lparr> suggestions := data, noResults := (data = []) \<rparr>
              | None \<Rightarrow>
                  s1\<lparr> debounceRef := Some (nextTimer s1),
                      timers := (timers s1)(nextTimer s1 \<mapsto> Debounce q q (debounceMs cfg)),
                      nextTimer := Suc (nextTimer s1) \<rparr>)"

subsection \<open>Invariants of the reachable states\<close>

text \<open>
  Keys are lower-cased trimmed queries that passed the test \<open>if (!q) return\<close>, so no
  closure and no cache entry holds the empty key.
\<close>

fun timerKeyOk :: "timer \<Rightarrow> bool" where
  "timerKeyOk (Debounce q key d) = (key \<noteq> [])"

fun taskKeyOk :: "task \<Rightarrow> bool" where
  "taskKeyOk (FetchPending q key a) = (key \<noteq> [])"
| "taskKeyOk (BackoffWait q key a d) = (key \<noteq> [])"
| "taskKeyOk SelectionPending = True"

definition keysOk :: "state \<Rightarrow> bool" where
  "keysOk s =
     ((\<forall>p \<in> set (cacheRef s). fst p \<noteq> [])
      \<and> (\<forall>t tm. timers s t = Some tm \<longrightarrow> timerKeyOk tm)
      \<and> (\<forall>c tk. tasks s c = Some tk \<longrightarrow> taskKeyOk tk))"

text \<open>
  The key a closure holds is the lower-cased form of the query it holds, and the keys
  of the cache are lower-case.
\<close>

fun timerKeyed :: "timer \<Rightarrow> bool" where
  "timerKeyed (Debounce q key d) = (key = toLowerCase q)"

fun taskKeyed :: "task \<Rightarrow> bool" where
  "taskKeyed (FetchPending q key a) = (key = toLowerCase q)"
| "taskKeyed (BackoffWait q key a d) = (key = toLowerCase q)"
| "taskKeyed SelectionPending = True"

definition keyedOk :: "state \<Rightarrow> bool" where
  "keyedOk s =
     ((\<forall>p \<in> set (cacheRef s). toLowerCase (fst p) = fst p)
      \<and> (\<forall>t tm. timers s t = Some tm \<longrightarrow> timerKeyed tm)
      \<and> (\<forall>c tk. tasks s c = Some tk \<longrightarrow> taskKeyed tk))"

text \<open>
  What a suspended retry loop knows about its own past: waiting for attempt \<open>a\<close> it has
  called \<open>fetchFn\<close> \<open>a + 1\<close> times, and so it has while it waits for the backoff timer
  after attempt \<open>a\<close>, whose delay is \<open>BACKOFF_BASE_MS * (a + 1)\<close>. A controller not yet
  created has no function and no calls.
\<close>

fun retryTaskOk :: "nat \<Rightarrow> task option \<Rightarrow> bool" where
  "retryTaskOk n None = (int n \<le> RETRY_ATTEMPTS)"
| "retryTaskOk n (Some (FetchPending q key a)) =
     (0 \<le> a \<and> a < RETRY_ATTEMPTS \<and> int n = a + 1)"
| "retryTaskOk n (Some (BackoffWait q key a d)) =
     (0 \<le> a \<and> a + 1 < RETRY_ATTEMPTS \<and> int n = a + 1 \<and> d = BACKOFF_BASE_MS * (a + 1))"
| "retryTaskOk n (Some SelectionPending) = (n = 0)"

definition retryOk :: "state \<Rightarrow> bool" where
  "retryOk s =
     (\<forall>c. retryTaskOk (attemptsOf c s) (tasks s c)
          \<and> (nextController s \<le> c \<longrightarrow> tasks s c = None \<and> attemptsOf c s = 0))"

text \<open>
  What holds as long as \<open>handleSelection\<close> starts no request: a live function runs
  under the controller held in \<open>abortRef\<close>, an armed timer is the one held in
  \<open>debounceRef\<close>, and while a timer is armed no function is live.
\<close>

definition soleOk :: "state \<Rightarrow> bool" where
  "soleOk s =
     ((\<forall>c. live s c \<longrightarrow> abortRef s = Some c)
      \<and> (\<forall>t. timers s t \<noteq> None \<longrightarrow> debounceRef s = Some t)
      \<and> (\<forall>t c. timers s t \<noteq> None \<longrightarrow> \<not> live s c))"

subsection \<open>Parameters, states and traces used in the examples\<close>

definition defaultParams :: params where
  "defaultParams = \<lparr> selectionFnGiven = True, debounceMsGiven = None, minCharsGiven = None,
                      maxCacheGiven = None, otherProps = [] \<rparr>"

definition defaultConfig :: config where
  "defaultConfig = destructure defaultParams"

definition smallCacheConfig :: config where
  "smallCacheConfig = destructure (defaultParams\<lparr> maxCacheGiven := Some 2 \<rparr>)"

text \<open>An argument object that carries \<open>maxAttempts: 5\<close> and \<open>backoffBaseMs: 10\<close>.\<close>

definition fiveAttemptsParams :: params where
  "fiveAttemptsParams =
     defaultParams\<lparr> otherProps := [(''maxAttempts'', 5), (''backoffBaseMs'', 10)] \<rparr>"

text \<open>Three suggestions on show.\<close>

definition threeItems :: state where
  "threeItems = init\<lparr> suggestions := [''apple'', ''apricot'', ''avocado''] \<rparr>"

text \<open>The user typed \<open>apple\<close>, the debounce timer fired and the fetch resolved.\<close>

definition afterApple :: state where
  "afterApple = run defaultConfig
     [UpdateInput ''apple'', TimerFire 1, Resolve 0 (Array [''apple pie''])] init"

text \<open>The user typed \<open>Apple\<close>, the debounce timer fired and the fetch resolved.\<close>

definition afterMixedApple :: state where
  "afterMixedApple = run defaultConfig
     [UpdateInput ''Apple'', TimerFire 1, Resolve 0 (Array [''apple pie''])] init"

text \<open>
  A fetch of \<open>b\<close> fills the cache; the fetch of \<open>a\<close> fails on both attempts; then
  the user types \<open>B\<close>.
\<close>

definition staleErrorTrace :: "event list" where
  "staleErrorTrace =
     [UpdateInput ''b'', TimerFire 1, Resolve 0 (Array [''bee'']),
      UpdateInput ''a'', TimerFire 2, Reject 1, BackoffDone 1, Reject 1,
      UpdateInput ''B'']"

text \<open>
  A fetch of \<open>b\<close> fills the cache; while the fetch of \<open>a\<close> is in flight the user types
  \<open>B\<close>; the fetch of \<open>a\<close> resolves afterwards.
\<close>

definition staleLoadingTrace :: "event list" where
  "staleLoadingTrace =
     [UpdateInput ''b'', TimerFire 1, Resolve 0 (Array [''bee'']),
      UpdateInput ''a'', TimerFire 2,
      UpdateInput ''B'', Resolve 1 (Array [''ant''])]"

text \<open>
  Three queries fetched one after the other, with a cache hit on the first one before
  the third fetch.
\<close>

definition threeFetchesTrace :: "event list" where
  "threeFetchesTrace =
     [UpdateInput ''a'', TimerFire 1, Resolve 0 (Array [''ant'']),
      UpdateInput ''b'', TimerFire 2, Resolve 1 (Array [''bee'']),
      UpdateInput ''a'',
      UpdateInput ''c'', TimerFire 3, Resolve 2 (Array [''cat''])]"

text \<open>A fetch whose every attempt fails.\<close>

definition alwaysFailingTrace :: "event list" where
  "alwaysFailingTrace = [UpdateInput ''a'', TimerFire 1, Reject 0, BackoffDone 0, Reject 0]"

text \<open>The user picks \<open>apple\<close>, \<open>selectionFn\<close> fails, and the user picks it again.\<close>

definition selectionTrace :: "event list" where
  "selectionTrace = [HandleSelection ''apple'', Reject 0, HandleSelection ''apple'']"

text \<open>
  The fetch of \<open>a\<close> is in flight when \<open>handleSelection\<close> is called; in the second trace
  \<open>handleSelection\<close> is called while the debounce timer of \<open>a\<close> is armed.
\<close>

definition selectionDuringFetch :: "event list" where
  "selectionDuringFetch = [UpdateInput ''a'', TimerFire 1, HandleSelection ''x'']"

definition selectionDuringDebounce :: "event list" where
  "selectionDuringDebounce = [UpdateInput ''a'', HandleSelection ''x'', TimerFire 1]"

text \<open>
  The user types \<open>ap\<close> and gets two suggestions, types on to \<open>app\<close>, and while the
  fetch of \<open>app\<close> is in flight selects the first of the two with ArrowDown and Enter.
  The component's \<open>handleSelect\<close> calls \<open>updateInput\<close>, \<open>setSuggestions([])\<close> and
  \<open>handleSelection\<close>; the query effect runs after the handler, that is after
  \<open>handleSelection\<close> has stored its controller in \<open>abortRef\<close>.
\<close>

definition pickWhileFetching :: "event list" where
  "pickWhileFetching =
     [UpdateInput ''ap'', TimerFire 1, Resolve 0 (Array [''apple'', ''apricot'']),
      UpdateInput ''app'', TimerFire 2, MoveHighlight 1,
      HandleSelection ''apple'', SetSuggestions [], UpdateInput ''apple'']"

section \<open>Properties\<close>

lemmas hook_defs =
  step_def flushEffects_def highlightEffect_def queryEffect_def cancelPending_def
  updateInput_def clear_def moveHighlight_def nextHighlight_def setHighlightIndex_def
  setSuggestions_def timerFire_def attemptFetch_def fetchResolved_def fetchRejected_def
  handleSelection_def selectionResolved_def selectionRejected_def
  mapGet_def cacheStore_def mapDelete_def

lemmas const_defs =
  DEBOUNCE_MS_def MIN_CHARS_def MAX_CACHE_SIZE_def RETRY_ATTEMPTS_def BACKOFF_BASE_MS_def

lemmas string_defs =
  trim_def toLowerCase_def lowerChar_def isWhiteSpace_def char_of_def bit_Suc_0_iff

lemmas config_defs = defaultConfig_def defaultParams_def destructure_def const_defs

subsection \<open>Highlight navigation\<close>

text \<open>
  C6, as the claim states it, at three suggestions: with highlight \<open>0\<close>,
  \<open>moveHighlight(5)\<close> yields \<open>0\<close> where \<open>(0 + 5) mod 3\<close> is \<open>2\<close>; with highlight
  \<open>-1\<close>, \<open>moveHighlight(-1)\<close> yields \<open>2\<close>, as the claim's own example says, where
  \<open>(-1 - 1) mod 3\<close> is \<open>1\<close>.
\<close>

theorem moveHighlight_not_modulo:
  "highlight (step defaultConfig (MoveHighlight 5) (threeItems\<lparr> highlight := 0 \<rparr>)) = 0
   \<and> (0 + 5) mod int (length (suggestions (threeItems\<lparr> highlight := 0 \<rparr>))) = 2
   \<and> highlight (step defaultConfig (MoveHighlight (- 1)) (threeItems\<lparr> highlight := - 1 \<rparr>)) = 2
   \<and> (- 1 + - 1) mod int (length (suggestions (threeItems\<lparr> highlight := - 1 \<rparr>))) = 1"
  by (simp add: threeItems_def init_def hook_defs)

text \<open>
  C6 (amended): \<open>moveHighlight(delta)\<close> on an empty suggestion list yields \<open>-1\<close>. On a
  list of length \<open>n > 0\<close> with highlight \<open>h\<close> it yields \<open>h + delta\<close> when that sum lies in
  \<open>[0, n - 1]\<close>, \<open>n - 1\<close> for every sum below \<open>0\<close> and \<open>0\<close> for every sum at or above
  \<open>n\<close>, for every integer \<open>delta\<close>. This is \<open>(h + delta) mod n\<close> whenever the sum lies
  in \<open>[-1, n]\<close>. With \<open>n = 3\<close> and \<open>h = -1\<close>, \<open>moveHighlight(-1)\<close> yields \<open>2\<close>; with
  \<open>h = 2\<close>, \<open>moveHighlight(1)\<close> yields \<open>0\<close>.
\<close>

theorem moveHighlight_wraps_to_ends:
  "highlight (step cfg (MoveHighlight delta) s) =
     (if suggestions s = [] then - 1
      else if highlight s + delta < 0 then int (length (suggestions s)) - 1
      else if highlight s + delta \<ge> int (length (suggestions s)) then 0
      else highlight s + delta)
   \<and> (suggestions s \<noteq> [] \<and> - 1 \<le> highlight s + delta
        \<and> highlight s + delta \<le> int (length (suggestions s))
      \<longrightarrow> highlight (step cfg (MoveHighlight delta) s)
            = (highlight s + delta) mod int (length (suggestions s)))
   \<and> highlight (step cfg (MoveHighlight (- 1)) (threeItems\<lparr> highlight := - 1 \<rparr>)) = 2
   \<and> highlight (step cfg (MoveHighlight 1) (threeItems\<lparr> highlight := 2 \<rparr>)) = 0"
proof -
  let ?n = "int (length (suggestions s))"
  let ?t = "highlight s + delta"
  have shape: "highlight (step cfg (MoveHighlight delta) s) =
     (if suggestions s = [] then - 1
      else if ?t < 0 then ?n - 1 else if ?t \<ge> ?n then 0 else ?t)"
    by (auto simp: hook_defs Let_def)
  have modular: "highlight (step cfg (MoveHighlight delta) s) = ?t mod ?n"
    if ne: "suggestions s \<noteq> []" and lo: "- 1 \<le> ?t" and hi: "?t \<le> ?n"
  proof -
    from ne have pos: "0 < ?n" by simp
    consider "?t = - 1" | "?t = ?n" | "0 \<le> ?t" "?t < ?n" using lo hi by linarith
    then show ?thesis
    proof cases
      case 1
      have "(- 1) mod ?n = ?n - 1" using pos by (simp add: zmod_minus1)
      with 1 ne pos show ?thesis unfolding shape by simp
    next
      case 2
      with ne pos show ?thesis unfolding shape by simp
    next
      case 3
      with ne show ?thesis unfolding shape by simp
    qed
  qed
  have ex1: "highlight (step cfg (MoveHighlight (- 1)) (threeItems\<lparr> highlight := - 1 \<rparr>)) = 2"
    by (simp add: threeItems_def init_def hook_defs)
  have ex2: "highlight (step cfg (MoveHighlight 1) (threeItems\<lparr> highlight := 2 \<rparr>)) = 0"
    by (simp add: threeItems_def init_def hook_defs)
  from shape modular ex1 ex2 show ?thesis by blast
qed

text \<open>The amended C6 at three suggestions, highlight \<open>2\<close> and one step down the list.\<close>

theorem moveHighlight_wraps_to_ends_witness:
  "suggestions (threeItems\<lparr> highlight := 2 \<rparr>) \<noteq> []
   \<and> - 1 \<le> highlight (threeItems\<lparr> highlight := 2 \<rparr>) + 1
   \<and> highlight (threeItems\<lparr> highlight := 2 \<rparr>) + 1
       \<le> int (length (suggestions (threeItems\<lparr> highlight := 2 \<rparr>)))
   \<and> highlight (step defaultConfig (MoveHighlight 1) (threeItems\<lparr> highlight := 2 \<rparr>)) = 3 mod 3"
  using moveHighlight_wraps_to_ends [of defaultConfig 1 "threeItems\<lparr> highlight := 2 \<rparr>"]
  by (simp add: threeItems_def init_def)

subsection \<open>Blank queries\<close>

text \<open>
  C10: for every input string of length at least \<open>minChars\<close> whose trimmed form is
  empty, \<open>updateInput\<close> sets \<open>query\<close> to the raw string and the highlight to \<open>-1\<close>; no
  fetch cycle starts (no timer is armed, nothing is called, no function is suspended),
  and \<open>suggestions\<close>, \<open>noResults\<close> and \<open>error\<close> stay as they were, as do \<open>loading\<close> and
  the cache.
\<close>

theorem blank_query_keeps_suggestions:
  assumes "minChars cfg \<le> int (length val)" and "trim val = []"
  shows "query (step cfg (UpdateInput val) s) = val
       \<and> input (step cfg (UpdateInput val) s) = val
       \<and> highlight (step cfg (UpdateInput val) s) = - 1
       \<and> suggestions (step cfg (UpdateInput val) s) = suggestions s
       \<and> noResults (step cfg (UpdateInput val) s) = noResults s
       \<and> error (step cfg (UpdateInput val) s) = error s
       \<and> loading (step cfg (UpdateInput val) s) = loading s
       \<and> cacheRef (step cfg (UpdateInput val) s) = cacheRef s
       \<and> calls (step cfg (UpdateInput val) s) = calls s
       \<and> tasks (step cfg (UpdateInput val) s) = tasks s
       \<and> nextTimer (step cfg (UpdateInput val) s) = nextTimer s
       \<and> timers (step cfg (UpdateInput val) s) \<subseteq>\<^sub>m timers s"
proof -
  let ?u = "s\<lparr> input := val, highlight := - 1, query := val \<rparr>"
  have upd: "updateInput cfg val s = ?u"
    using assms(1) by (simp add: updateInput_def)
  have eff: "queryEffect cfg ?u = cancelPending ?u"
    using assms(2) by (simp add: queryEffect_def cancelPending_def Let_def)
  have st: "step cfg (UpdateInput val) s
              = highlightEffect (if val \<noteq> query s then cancelPending ?u else ?u)"
    by (simp add: step_def flushEffects_def upd eff)
  have le: "timers (cancelPending ?u) \<subseteq>\<^sub>m timers s"
    by (auto simp: cancelPending_def map_le_def split: option.splits)
  show ?thesis
  proof (cases "val = query s")
    case True
    with st have "step cfg (UpdateInput val) s = highlightEffect ?u" by simp
    then show ?thesis by (simp add: highlightEffect_def Let_def)
  next
    case False
    with st have "step cfg (UpdateInput val) s = highlightEffect (cancelPending ?u)" by simp
    then show ?thesis using le
      by (simp add: highlightEffect_def Let_def) (simp add: cancelPending_def)
  qed
qed

text \<open>C10 at two spaces typed over the suggestions fetched for \<open>apple\<close>.\<close>

theorem blank_query_keeps_suggestions_witness:
  "minChars defaultConfig \<le> int (length ''  '') \<and> trim ''  '' = []
   \<and> suggestions afterApple = [''apple pie'']
   \<and> query (step defaultConfig (UpdateInput ''  '') afterApple) = ''  ''
   \<and> highlight (step defaultConfig (UpdateInput ''  '') afterApple) = - 1
   \<and> suggestions (step defaultConfig (UpdateInput ''  '') afterApple) = [''apple pie'']
   \<and> calls (step defaultConfig (UpdateInput ''  '') afterApple) = calls afterApple"
proof -
  have h1: "minChars defaultConfig \<le> int (length ''  '')" by (simp add: config_defs)
  have h2: "trim ''  '' = []" by (simp add: string_defs)
  have s0: "suggestions afterApple = [''apple pie'']"
    by (simp add: afterApple_def config_defs init_def hook_defs string_defs Let_def)
  from blank_query_keeps_suggestions [OF h1 h2, of afterApple] h1 h2 s0
  show ?thesis by simp
qed

subsection \<open>Cache keys\<close>

lemma toLowerCase_Nil_iff [simp]: "toLowerCase q = [] \<longleftrightarrow> q = []"
  by (simp add: toLowerCase_def)

lemma set_mapSet: "set (mapSet k v m) \<subseteq> insert (k, v) (set m)"
  by (induction m) (auto split: if_splits)

lemma set_cacheStore: "set (cacheStore n k v m) \<subseteq> insert (k, v) (set m)"
  using set_mapSet [of k v m]
  by (auto simp: cacheStore_def mapDelete_def Let_def split: list.splits)

lemma keysOk_init: "keysOk init"
  by (simp add: keysOk_def init_def)

lemma keysOk_highlightEffect: "keysOk s \<Longrightarrow> keysOk (highlightEffect s)"
  by (simp add: keysOk_def highlightEffect_def Let_def)

lemma keysOk_cancelPending: "keysOk s \<Longrightarrow> keysOk (cancelPending s)"
  by (auto simp: keysOk_def cancelPending_def split: option.splits if_splits)

lemma keysOk_queryEffect: "keysOk s \<Longrightarrow> keysOk (queryEffect cfg s)"
  using keysOk_cancelPending [of s]
  by (auto simp: keysOk_def queryEffect_def mapGet_def Let_def split: option.splits if_splits)

lemma keysOk_handler: "keysOk s \<Longrightarrow> keysOk (handler cfg ev s)"
proof (cases ev)
  case (Resolve c data)
  assume ok: "keysOk s"
  show ?thesis
  proof (cases "tasks s c")
    case None
    with Resolve ok show ?thesis by simp
  next
    case (Some tk)
    show ?thesis
    proof (cases tk)
      case (FetchPending q key a)
      with Some ok have "key \<noteq> []" unfolding keysOk_def by fastforce
      with ok Some FetchPending Resolve set_cacheStore [of "maxCache cfg" key "coerce data" "cacheRef s"]
      show ?thesis
        by (fastforce simp: keysOk_def fetchResolved_def Let_def split: if_splits)
    next
      case (BackoffWait q key a d)
      with Some Resolve ok show ?thesis by simp
    next
      case SelectionPending
      with Some Resolve ok show ?thesis
        by (auto simp: keysOk_def selectionResolved_def Let_def split: if_splits)
    qed
  qed
qed (force simp: keysOk_def updateInput_def clear_def moveHighlight_def setHighlightIndex_def
      setSuggestions_def handleSelection_def timerFire_def attemptFetch_def fetchRejected_def
      selectionRejected_def Let_def
      split: option.splits task.splits timer.splits if_splits)+

lemma keysOk_step: "keysOk s \<Longrightarrow> keysOk (step cfg ev s)"
  by (simp add: step_def flushEffects_def keysOk_highlightEffect keysOk_queryEffect keysOk_handler)

lemma keysOk_run: "keysOk s \<Longrightarrow> keysOk (run cfg evs s)"
  by (induction evs arbitrary: s) (simp_all add: keysOk_step)

lemma cache_key_nonempty:
  assumes "keysOk s" and "mapGet (cacheRef s) k = Some data"
  shows "k \<noteq> []"
proof -
  from assms(2) have "(k, data) \<in> set (cacheRef s)"
    by (simp add: mapGet_def map_of_SomeD)
  with assms(1) show ?thesis by (auto simp: keysOk_def)
qed

subsection \<open>Cache hits\<close>

lemma queryEffect_hit:
  assumes "trim (query s) \<noteq> []"
      and "mapGet (cacheRef s) (toLowerCase (trim (query s))) = Some data"
  shows "queryEffect cfg s = (cancelPending s)\<lparr> suggestions := data, noResults := (data = []) \<rparr>"
  using assms by (simp add: queryEffect_def cancelPending_def Let_def)

lemma step_hit:
  assumes ok: "keysOk s"
      and len: "minChars cfg \<le> int (length val)"
      and new: "val \<noteq> query s"
      and hit: "mapGet (cacheRef s) (toLowerCase (trim val)) = Some data"
  shows "step cfg (UpdateInput val) s =
           highlightEffect
             ((cancelPending (s\<lparr> input := val, highlight := - 1, query := val \<rparr>))
                \<lparr> suggestions := data, noResults := (data = []) \<rparr>)"
proof -
  let ?u = "s\<lparr> input := val, highlight := - 1, query := val \<rparr>"
  have upd: "updateInput cfg val s = ?u"
    using len by (simp add: updateInput_def)
  from cache_key_nonempty [OF ok hit] have ne: "trim (query ?u) \<noteq> []" by simp
  from hit have hit': "mapGet (cacheRef ?u) (toLowerCase (trim (query ?u))) = Some data" by simp
  show ?thesis
    using new by (simp add: step_def flushEffects_def upd queryEffect_hit [OF ne hit'])
qed

lemma afterApple_fields:
  "cacheRef afterApple = [(''apple'', [''apple pie''])]"
  "query afterApple = ''apple''"
  "suggestions afterApple = [''apple pie'']"
  "calls afterApple = [FetchCall ''apple'' 0]"
  "loading afterApple = False"
  by (simp_all add: afterApple_def config_defs init_def hook_defs string_defs Let_def)

text \<open>
  C9: the cache-hit branch of the query effect writes \<open>suggestions\<close> and \<open>noResults\<close>
  and no other state field; in particular \<open>error\<close> and \<open>loading\<close> keep their values,
  also across the whole \<open>updateInput\<close> that leads to the hit. So a cache hit can leave
  a non-empty suggestion list on show beside the error of an earlier failed fetch, or
  beside \<open>loading = true\<close> left by a fetch the hit superseded, which the late result of
  that fetch does not clear.
\<close>

theorem cache_hit_keeps_error_and_loading:
  "(trim (query s) \<noteq> [] \<and> mapGet (cacheRef s) (toLowerCase (trim (query s))) = Some data
      \<longrightarrow> suggestions (queryEffect cfg s) = data
        \<and> noResults (queryEffect cfg s) = (data = [])
        \<and> error (queryEffect cfg s) = error s
        \<and> loading (queryEffect cfg s) = loading s
        \<and> input (queryEffect cfg s) = input s
        \<and> query (queryEffect cfg s) = query s
        \<and> highlight (queryEffect cfg s) = highlight s)
   \<and> (mapGet (cacheRef (run cfg evs init)) (toLowerCase (trim val)) = Some data
        \<and> minChars cfg \<le> int (length val) \<and> val \<noteq> query (run cfg evs init)
      \<longrightarrow> error (step cfg (UpdateInput val) (run cfg evs init)) = error (run cfg evs init)
        \<and> loading (step cfg (UpdateInput val) (run cfg evs init)) = loading (run cfg evs init))
   \<and> suggestions (run defaultConfig staleErrorTrace init) = [''bee'']
   \<and> error (run defaultConfig staleErrorTrace init) = Some ''Failed to fetch''
   \<and> suggestions (run defaultConfig staleLoadingTrace init) = [''bee'']
   \<and> loading (run defaultConfig staleLoadingTrace init) = True"
proof -
  have frame: "suggestions (queryEffect cfg s) = data
        \<and> noResults (queryEffect cfg s) = (data = [])
        \<and> error (queryEffect cfg s) = error s
        \<and> loading (queryEffect cfg s) = loading s
        \<and> input (queryEffect cfg s) = input s
        \<and> query (queryEffect cfg s) = query s
        \<and> highlight (queryEffect cfg s) = highlight s"
    if "trim (query s) \<noteq> []"
      and "mapGet (cacheRef s) (toLowerCase (trim (query s))) = Some data"
    unfolding queryEffect_hit [OF that] by (simp add: cancelPending_def)
  have whole: "error (step cfg (UpdateInput val) (run cfg evs init)) = error (run cfg evs init)
        \<and> loading (step cfg (UpdateInput val) (run cfg evs init)) = loading (run cfg evs init)"
    if hit: "mapGet (cacheRef (run cfg evs init)) (toLowerCase (trim val)) = Some data"
      and len: "minChars cfg \<le> int (length val)"
      and new: "val \<noteq> query (run cfg evs init)"
  proof -
    have ok: "keysOk (run cfg evs init)" by (rule keysOk_run [OF keysOk_init])
    show ?thesis
      unfolding step_hit [OF ok len new hit]
      by (simp add: highlightEffect_def Let_def) (simp add: cancelPending_def)
  qed
  have e1: "suggestions (run defaultConfig staleErrorTrace init) = [''bee'']"
    and e2: "error (run defaultConfig staleErrorTrace init) = Some ''Failed to fetch''"
    by (simp_all add: staleErrorTrace_def config_defs init_def hook_defs string_defs Let_def)
  have l1: "suggestions (run defaultConfig staleLoadingTrace init) = [''bee'']"
    and l2: "loading (run defaultConfig staleLoadingTrace init) = True"
    by (simp_all add: staleLoadingTrace_def config_defs init_def hook_defs string_defs Let_def)
  from frame whole e1 e2 l1 l2 show ?thesis by blast
qed

text \<open>C9 at the query effect run on \<open>APPLE\<close> after \<open>apple\<close> was fetched.\<close>

theorem cache_hit_keeps_error_and_loading_witness:
  "trim (query (afterApple\<lparr> query := ''APPLE'', loading := True, error := Some ''old'' \<rparr>)) \<noteq> []
   \<and> mapGet (cacheRef (afterApple\<lparr> query := ''APPLE'', loading := True, error := Some ''old'' \<rparr>))
        (toLowerCase (trim (query (afterApple\<lparr> query := ''APPLE'', loading := True, error := Some ''old'' \<rparr>))))
       = Some [''apple pie'']
   \<and> suggestions (queryEffect defaultConfig
         (afterApple\<lparr> query := ''APPLE'', loading := True, error := Some ''old'' \<rparr>)) = [''apple pie'']
   \<and> error (queryEffect defaultConfig
         (afterApple\<lparr> query := ''APPLE'', loading := True, error := Some ''old'' \<rparr>)) = Some ''old''
   \<and> loading (queryEffect defaultConfig
         (afterApple\<lparr> query := ''APPLE'', loading := True, error := Some ''old'' \<rparr>)) = True"
proof -
  let ?s = "afterApple\<lparr> query := ''APPLE'', loading := True, error := Some ''old'' \<rparr>"
  have h1: "trim (query ?s) \<noteq> []" by (simp add: string_defs)
  have h2: "mapGet (cacheRef ?s) (toLowerCase (trim (query ?s))) = Some [''apple pie'']"
    by (simp add: afterApple_fields mapGet_def string_defs)
  from cache_hit_keeps_error_and_loading [of ?s "[''apple pie'']" defaultConfig] h1 h2
  show ?thesis by simp
qed

subsection \<open>The cache bound\<close>

lemma mapSet_new: "k \<notin> fst ` set m \<Longrightarrow> mapSet k v m = m @ [(k, v)]"
  by (induction m) auto

lemma length_mapSet_le: "length (mapSet k v m) \<le> Suc (length m)"
  by (induction m) auto

lemma length_mapDelete_hd: "length (mapDelete (fst p) (p # m)) \<le> length m"
  by (simp add: mapDelete_def)

lemma length_cacheStore:
  assumes "0 \<le> n" and "int (length m) \<le> n"
  shows "int (length (cacheStore n k v m)) \<le> n"
proof (cases "mapSet k v m")
  case Nil
  with assms show ?thesis by (simp add: cacheStore_def)
next
  case (Cons p rest)
  have "length (mapDelete (fst p) (p # rest)) \<le> length rest"
    by (rule length_mapDelete_hd)
  moreover have "length (p # rest) \<le> Suc (length m)"
    using length_mapSet_le [of k v m] Cons by simp
  ultimately have "int (length (mapDelete (fst p) (p # rest))) \<le> n"
    using assms(2) by simp
  with Cons show ?thesis by (simp add: cacheStore_def Let_def)
qed

text \<open>Only the continuation of a successful fetch writes the cache, through \<open>cacheStore\<close>.\<close>

lemma cacheRef_handler:
  "cacheRef (handler cfg ev s) = cacheRef s
   \<or> (\<exists>k v. cacheRef (handler cfg ev s) = cacheStore (maxCache cfg) k v (cacheRef s))"
  by (cases ev)
    (auto simp: updateInput_def clear_def moveHighlight_def setHighlightIndex_def
       setSuggestions_def handleSelection_def timerFire_def attemptFetch_def
       fetchResolved_def fetchRejected_def selectionResolved_def selectionRejected_def Let_def
     split: option.splits task.splits timer.splits)

lemma cacheRef_queryEffect: "cacheRef (queryEffect cfg s) = cacheRef s"
  by (simp add: queryEffect_def cancelPending_def Let_def split: option.splits)

lemma cacheRef_highlightEffect: "cacheRef (highlightEffect s) = cacheRef s"
  by (simp add: highlightEffect_def Let_def)

lemma cacheRef_step:
  "cacheRef (step cfg ev s) = cacheRef s
   \<or> (\<exists>k v. cacheRef (step cfg ev s) = cacheStore (maxCache cfg) k v (cacheRef s))"
  using cacheRef_handler [of cfg ev s]
  by (simp add: step_def flushEffects_def cacheRef_highlightEffect cacheRef_queryEffect)

lemma cache_bound_step:
  assumes "0 \<le> maxCache cfg" and "int (length (cacheRef s)) \<le> maxCache cfg"
  shows "int (length (cacheRef (step cfg ev s))) \<le> maxCache cfg"
  using cacheRef_step [of cfg ev s] assms length_cacheStore [OF assms] by auto

lemma cache_bound_run:
  assumes "0 \<le> maxCache cfg" and "int (length (cacheRef s)) \<le> maxCache cfg"
  shows "int (length (cacheRef (run cfg evs s))) \<le> maxCache cfg"
  using assms(2)
proof (induction evs arbitrary: s)
  case Nil
  then show ?case by simp
next
  case (Cons ev evs)
  from cache_bound_step [OF assms(1) Cons.prems] Cons.IH show ?case by simp
qed

text \<open>A new key written to a full cache pushes out the head, and only the head.\<close>

lemma cacheStore_full:
  assumes dist: "distinct (map fst m)" and new: "k \<notin> fst ` set m"
      and full: "int (length m) = n"
  shows "cacheStore n k v m = tl (m @ [(k, v)])"
proof (cases m)
  case Nil
  with full show ?thesis by (simp add: cacheStore_def mapDelete_def)
next
  case (Cons p rest)
  from dist Cons have "fst p \<notin> fst ` set rest" by simp
  then have keep: "filter (\<lambda>x. fst x \<noteq> fst p) rest = rest"
    by (intro filter_True) (metis imageI)
  from new Cons have "k \<noteq> fst p" by auto
  with keep Cons full mapSet_new [OF new, of v]
  show ?thesis by (simp add: cacheStore_def mapDelete_def)
qed

lemma cacheStore_room:
  assumes "k \<notin> fst ` set m" and "int (length m) < n"
  shows "cacheStore n k v m = m @ [(k, v)]"
  using assms mapSet_new [OF assms(1), of v] by (simp add: cacheStore_def)

lemma cacheInsertAll_snoc:
  "cacheInsertAll n (kvs @ [kv]) = cacheStore n (fst kv) (snd kv) (cacheInsertAll n kvs)"
  by (simp add: cacheInsertAll_def)

lemma cacheInsertAll_room:
  "distinct (map fst kvs) \<Longrightarrow> int (length kvs) \<le> n \<Longrightarrow> cacheInsertAll n kvs = kvs"
proof (induction kvs rule: rev_induct)
  case Nil
  then show ?case by (simp add: cacheInsertAll_def)
next
  case (snoc kv kvs)
  then have filled: "cacheInsertAll n kvs = kvs" by simp
  from snoc.prems have "fst kv \<notin> fst ` set kvs" and "int (length kvs) < n" by auto
  from cacheStore_room [OF this, of "snd kv"] filled
  show ?case by (simp add: cacheInsertAll_snoc)
qed

lemma cacheInsertAll_overflow:
  assumes dist: "distinct (map fst kvs)" and len: "int (length kvs) = n + 1"
  shows "cacheInsertAll n kvs = tl kvs"
proof (cases kvs rule: rev_cases)
  case Nil
  with len have "n = - 1" by simp
  with Nil show ?thesis by (simp add: cacheInsertAll_def)
next
  case (snoc front kv)
  from dist snoc have d: "distinct (map fst front)" and new: "fst kv \<notin> fst ` set front"
    by auto
  from len snoc have full: "int (length front) = n" by simp
  then have filled: "cacheInsertAll n front = front"
    using cacheInsertAll_room [OF d, of n] by simp
  from cacheStore_full [OF d new full, of "snd kv"] filled snoc
  show ?thesis by (simp add: cacheInsertAll_snoc)
qed

text \<open>
  C4: the cache of every reachable state holds at most \<open>maxCache\<close> entries (for a
  capacity that is not negative). A write of a new key to a full cache evicts the entry
  at the head of the insertion order and no other; a cache hit leaves the cache and its
  order as they are. So \<open>maxCache + 1\<close> distinct keys written to the empty cache leave
  the \<open>maxCache\<close> last ones, in their order.
\<close>

theorem cache_is_bounded_fifo:
  "(0 \<le> maxCache cfg \<longrightarrow> int (length (cacheRef (run cfg evs init))) \<le> maxCache cfg)
   \<and> (distinct (map fst m) \<and> k \<notin> fst ` set m \<and> int (length m) = n
        \<longrightarrow> cacheStore n k v m = tl (m @ [(k, v)]))
   \<and> (0 \<le> n \<and> distinct (map fst kvs) \<and> int (length kvs) = n + 1
        \<longrightarrow> cacheInsertAll n kvs = tl kvs \<and> int (length (cacheInsertAll n kvs)) = n)
   \<and> cacheRef (queryEffect cfg s) = cacheRef s"
proof -
  have bound: "int (length (cacheRef (run cfg evs init))) \<le> maxCache cfg"
    if "0 \<le> maxCache cfg"
    using cache_bound_run [OF that, of init evs] that by (simp add: init_def)
  have evict: "cacheStore n k v m = tl (m @ [(k, v)])"
    if "distinct (map fst m)" and "k \<notin> fst ` set m" and "int (length m) = n"
    using that by (rule cacheStore_full)
  have fill: "cacheInsertAll n kvs = tl kvs \<and> int (length (cacheInsertAll n kvs)) = n"
    if "0 \<le> n" and "distinct (map fst kvs)" and "int (length kvs) = n + 1"
    using cacheInsertAll_overflow [OF that(2,3)] that(1,3) by simp
  from bound evict fill cacheRef_queryEffect show ?thesis by blast
qed

text \<open>
  C4 at a hook with \<open>maxCache = 2\<close> that fetches \<open>a\<close>, \<open>b\<close>, reads \<open>a\<close> from the cache
  and fetches \<open>c\<close>: the entry of \<open>a\<close> is the one evicted.
\<close>

theorem cache_is_bounded_fifo_witness:
  "0 \<le> maxCache smallCacheConfig
   \<and> int (length (cacheRef (run smallCacheConfig threeFetchesTrace init))) \<le> maxCache smallCacheConfig
   \<and> cacheRef (run smallCacheConfig threeFetchesTrace init) = [(''b'', [''bee'']), (''c'', [''cat''])]
   \<and> distinct (map fst [(''a'', [''ant'']), (''b'', [''bee''])])
   \<and> ''c'' \<notin> fst ` set [(''a'', [''ant'']), (''b'', [''bee''])]
   \<and> int (length [(''a'', [''ant'']), (''b'', [''bee''])]) = 2
   \<and> cacheStore 2 ''c'' [''cat''] [(''a'', [''ant'']), (''b'', [''bee''])]
       = [(''b'', [''bee'']), (''c'', [''cat''])]
   \<and> distinct (map fst [(''a'', [''ant'']), (''b'', [''bee'']), (''c'', [''cat''])])
   \<and> int (length [(''a'', [''ant'']), (''b'', [''bee'']), (''c'', [''cat''])]) = 2 + 1
   \<and> cacheInsertAll 2 [(''a'', [''ant'']), (''b'', [''bee'']), (''c'', [''cat''])]
       = [(''b'', [''bee'']), (''c'', [''cat''])]"
proof -
  have run3: "cacheRef (run smallCacheConfig threeFetchesTrace init)
                = [(''b'', [''bee'']), (''c'', [''cat''])]"
    by (simp add: threeFetchesTrace_def smallCacheConfig_def config_defs init_def hook_defs
          string_defs Let_def)
  have cap: "maxCache smallCacheConfig = 2"
    by (simp add: smallCacheConfig_def config_defs)
  from cache_is_bounded_fifo
    [of smallCacheConfig threeFetchesTrace "[(''a'', [''ant'']), (''b'', [''bee''])]" "''c''" 2
        "[''cat'']" "[(''a'', [''ant'']), (''b'', [''bee'']), (''c'', [''cat''])]" init]
    run3 cap
  show ?thesis by simp
qed

subsection \<open>Where cache entries are stored\<close>

lemma lowerChar_idem: "lowerChar (lowerChar c) = lowerChar c"
  by (auto simp: lowerChar_def Let_def)

lemma toLowerCase_idem: "toLowerCase (toLowerCase q) = toLowerCase q"
  by (simp add: toLowerCase_def lowerChar_idem)

lemma map_of_mapSet_same: "map_of (mapSet k v m) k = Some v"
  by (induction m) auto

lemma map_of_mapDelete_other: "k \<noteq> k' \<Longrightarrow> map_of (mapDelete k' m) k = map_of m k"
  by (induction m) (auto simp: mapDelete_def)

lemma length_mapSet_ge: "length m \<le> length (mapSet k v m)"
  by (induction m) auto

lemma length_mapSet_old: "k \<in> fst ` set m \<Longrightarrow> length (mapSet k v m) = length m"
  by (induction m) force+

lemma hd_mapSet_new:
  assumes "k \<notin> fst ` set m" and "m \<noteq> []"
  shows "fst (hd (mapSet k v m)) \<noteq> k"
  using assms by (cases m) auto

text \<open>
  A write to a cache within its bound, of a capacity of at least one, is there to read
  afterwards: an old key is replaced in place, and a new key is not the head.
\<close>

lemma mapGet_cacheStore:
  assumes cap: "1 \<le> n" and bound: "int (length m) \<le> n"
  shows "mapGet (cacheStore n k v m) k = Some v"
proof (cases "int (length (mapSet k v m)) > n")
  case False
  then show ?thesis by (simp add: cacheStore_def mapGet_def map_of_mapSet_same)
next
  case True
  with bound have new: "k \<notin> fst ` set m"
    using length_mapSet_old [of k m v] by auto
  from True cap have "mapSet k v m \<noteq> []" by auto
  then obtain p rest where ms: "mapSet k v m = p # rest" by (cases "mapSet k v m") auto
  have "m \<noteq> []"
  proof
    assume "m = []"
    with True cap show False by simp
  qed
  from hd_mapSet_new [OF new this, of v] ms have "fst p \<noteq> k" by simp
  then have kept: "map_of (mapDelete (fst p) (mapSet k v m)) k = map_of (mapSet k v m) k"
    by (intro map_of_mapDelete_other) simp
  from True ms have "cacheStore n k v m = mapDelete (fst p) (mapSet k v m)"
    by (simp add: cacheStore_def)
  then show ?thesis
    by (simp only: mapGet_def kept map_of_mapSet_same)
qed

lemma keyedOk_init: "keyedOk init"
  by (simp add: keyedOk_def init_def)

lemma keyedOk_highlightEffect: "keyedOk s \<Longrightarrow> keyedOk (highlightEffect s)"
  by (simp add: keyedOk_def highlightEffect_def Let_def)

lemma keyedOk_cancelPending: "keyedOk s \<Longrightarrow> keyedOk (cancelPending s)"
  by (auto simp: keyedOk_def cancelPending_def split: option.splits if_splits)

lemma keyedOk_queryEffect: "keyedOk s \<Longrightarrow> keyedOk (queryEffect cfg s)"
  using keyedOk_cancelPending [of s]
  by (auto simp: keyedOk_def queryEffect_def mapGet_def Let_def split: option.splits if_splits)

lemma keyedOk_handler: "keyedOk s \<Longrightarrow> keyedOk (handler cfg ev s)"
proof (cases ev)
  case (Resolve c data)
  assume ok: "keyedOk s"
  show ?thesis
  proof (cases "tasks s c")
    case None
    with Resolve ok show ?thesis by simp
  next
    case (Some tk)
    show ?thesis
    proof (cases tk)
      case (FetchPending q key a)
      with Some ok have "key = toLowerCase q" unfolding keyedOk_def by fastforce
      then have "toLowerCase key = key" by (simp add: toLowerCase_idem)
      with ok Some FetchPending Resolve set_cacheStore [of "maxCache cfg" key "coerce data" "cacheRef s"]
      show ?thesis
        by (fastforce simp: keyedOk_def fetchResolved_def Let_def split: if_splits)
    next
      case (BackoffWait q key a d)
      with Some Resolve ok show ?thesis by simp
    next
      case SelectionPending
      with Some Resolve ok show ?thesis
        by (auto simp: keyedOk_def selectionResolved_def Let_def split: if_splits)
    qed
  qed
qed (force simp: keyedOk_def updateInput_def clear_def moveHighlight_def setHighlightIndex_def
      setSuggestions_def handleSelection_def timerFire_def attemptFetch_def fetchRejected_def
      selectionRejected_def Let_def
      split: option.splits task.splits timer.splits if_splits)+

lemma keyedOk_step: "keyedOk s \<Longrightarrow> keyedOk (step cfg ev s)"
  by (simp add: step_def flushEffects_def keyedOk_highlightEffect keyedOk_queryEffect
        keyedOk_handler)

lemma keyedOk_run: "keyedOk s \<Longrightarrow> keyedOk (run cfg evs s)"
  by (induction evs arbitrary: s) (simp_all add: keyedOk_step)

text \<open>
  C3, the read: let the cache of a reachable state hold a list under the key \<open>k\<close>. Every
  input of at least \<open>minChars\<close> characters whose trimmed, lower-cased form is \<open>k\<close>,
  whatever its case, is answered from that entry within the \<open>updateInput\<close> that makes
  it the query: \<open>suggestions\<close> becomes the cached list and \<open>noResults\<close> says whether it
  is empty, \<open>fetchFn\<close> is not called, no timer is armed, no function is suspended, and
  \<open>loading\<close> and the cache stay as they were.

  C3, the write: a query that misses arms a timer that holds its trimmed form and the
  lower-cased trimmed form as the key; the timer callback hands both to the fetch; in
  every reachable state every armed timer and every suspended fetch holds the
  lower-cased form of its query as its key, and every key of the cache is lower-case;
  and the result of a fetch that was not aborted is stored under the lower-cased form
  of its query (in a cache of capacity at least one). So two queries that differ in case
  only are stored under, and read from, one entry.
\<close>

theorem cache_hit_is_synchronous:
  "(mapGet (cacheRef (run cfg evs init)) k = Some data
      \<and> toLowerCase (trim val) = k
      \<and> minChars cfg \<le> int (length val)
      \<and> val \<noteq> query (run cfg evs init)
    \<longrightarrow> suggestions (step cfg (UpdateInput val) (run cfg evs init)) = data
      \<and> noResults (step cfg (UpdateInput val) (run cfg evs init)) = (data = [])
      \<and> calls (step cfg (UpdateInput val) (run cfg evs init)) = calls (run cfg evs init)
      \<and> tasks (step cfg (UpdateInput val) (run cfg evs init)) = tasks (run cfg evs init)
      \<and> nextTimer (step cfg (UpdateInput val) (run cfg evs init)) = nextTimer (run cfg evs init)
      \<and> timers (step cfg (UpdateInput val) (run cfg evs init)) \<subseteq>\<^sub>m timers (run cfg evs init)
      \<and> loading (step cfg (UpdateInput val) (run cfg evs init)) = loading (run cfg evs init)
      \<and> cacheRef (step cfg (UpdateInput val) (run cfg evs init)) = cacheRef (run cfg evs init))
   \<and> (minChars cfg \<le> int (length val) \<and> val \<noteq> query s \<and> trim val \<noteq> []
        \<and> mapGet (cacheRef s) (toLowerCase (trim val)) = None
    \<longrightarrow> timers (step cfg (UpdateInput val) s) (nextTimer s)
          = Some (Debounce (trim val) (toLowerCase (trim val)) (debounceMs cfg))
      \<and> debounceRef (step cfg (UpdateInput val) s) = Some (nextTimer s)
      \<and> cacheRef (step cfg (UpdateInput val) s) = cacheRef s)
   \<and> (timers s t = Some (Debounce q key d)
    \<longrightarrow> tasks (step cfg (TimerFire t) s) (nextController s) = Some (FetchPending q key 0)
      \<and> calls (step cfg (TimerFire t) s) = calls s @ [FetchCall q (nextController s)])
   \<and> (timers (run cfg evs init) t = Some (Debounce q key d) \<longrightarrow> key = toLowerCase q)
   \<and> (tasks (run cfg evs init) c = Some (FetchPending q key a) \<longrightarrow> key = toLowerCase q)
   \<and> (tasks (run cfg evs init) c = Some (BackoffWait q key a d) \<longrightarrow> key = toLowerCase q)
   \<and> (mapGet (cacheRef (run cfg evs init)) k = Some data \<longrightarrow> toLowerCase k = k)
   \<and> (tasks (run cfg evs init) c = Some (FetchPending q key a)
        \<and> c \<notin> aborted (run cfg evs init) \<and> 1 \<le> maxCache cfg
    \<longrightarrow> mapGet (cacheRef (step cfg (Resolve c result) (run cfg evs init))) (toLowerCase q)
          = Some (coerce result)
      \<and> suggestions (step cfg (Resolve c result) (run cfg evs init)) = coerce result)"
proof -
  let ?s = "run cfg evs init"
  have ok: "keysOk ?s" by (rule keysOk_run [OF keysOk_init])
  have keyed: "keyedOk ?s" by (rule keyedOk_run [OF keyedOk_init])
  have read: "suggestions (step cfg (UpdateInput val) ?s) = data
      \<and> noResults (step cfg (UpdateInput val) ?s) = (data = [])
      \<and> calls (step cfg (UpdateInput val) ?s) = calls ?s
      \<and> tasks (step cfg (UpdateInput val) ?s) = tasks ?s
      \<and> nextTimer (step cfg (UpdateInput val) ?s) = nextTimer ?s
      \<and> timers (step cfg (UpdateInput val) ?s) \<subseteq>\<^sub>m timers ?s
      \<and> loading (step cfg (UpdateInput val) ?s) = loading ?s
      \<and> cacheRef (step cfg (UpdateInput val) ?s) = cacheRef ?s"
    if stored: "mapGet (cacheRef ?s) k = Some data" and same: "toLowerCase (trim val) = k"
      and len: "minChars cfg \<le> int (length val)" and new: "val \<noteq> query ?s"
  proof -
    let ?u = "?s\<lparr> input := val, highlight := - 1, query := val \<rparr>"
    from stored same have hit: "mapGet (cacheRef ?s) (toLowerCase (trim val)) = Some data"
      by simp
    have le: "timers (cancelPending ?u) \<subseteq>\<^sub>m timers ?s"
      by (auto simp: cancelPending_def map_le_def split: option.splits)
    show ?thesis
      unfolding step_hit [OF ok len new hit]
      using le by (simp add: highlightEffect_def Let_def) (simp add: cancelPending_def)
  qed
  have arm: "timers (step cfg (UpdateInput val) s) (nextTimer s)
          = Some (Debounce (trim val) (toLowerCase (trim val)) (debounceMs cfg))
      \<and> debounceRef (step cfg (UpdateInput val) s) = Some (nextTimer s)
      \<and> cacheRef (step cfg (UpdateInput val) s) = cacheRef s"
    if "minChars cfg \<le> int (length val)" and "val \<noteq> query s" and "trim val \<noteq> []"
      and "mapGet (cacheRef s) (toLowerCase (trim val)) = None"
    using that
    by (simp add: step_def flushEffects_def updateInput_def queryEffect_def cancelPending_def
          highlightEffect_def Let_def)
  have fire: "tasks (step cfg (TimerFire t) s) (nextController s) = Some (FetchPending q key 0)
      \<and> calls (step cfg (TimerFire t) s) = calls s @ [FetchCall q (nextController s)]"
    if "timers s t = Some (Debounce q key d)"
    using that
    by (simp add: step_def flushEffects_def timerFire_def attemptFetch_def highlightEffect_def
          Let_def RETRY_ATTEMPTS_def)
  have tk: "key = toLowerCase q" if "timers ?s t = Some (Debounce q key d)"
    using keyed that unfolding keyedOk_def by fastforce
  have fk: "key = toLowerCase q" if "tasks ?s c = Some (FetchPending q key a)"
    using keyed that unfolding keyedOk_def by fastforce
  have bk: "key = toLowerCase q" if "tasks ?s c = Some (BackoffWait q key a d)"
    using keyed that unfolding keyedOk_def by fastforce
  have ck: "toLowerCase k = k" if "mapGet (cacheRef ?s) k = Some data"
  proof -
    from that have "(k, data) \<in> set (cacheRef ?s)"
      by (simp add: mapGet_def map_of_SomeD)
    with keyed show ?thesis unfolding keyedOk_def by fastforce
  qed
  have store: "mapGet (cacheRef (step cfg (Resolve c result) ?s)) (toLowerCase q)
          = Some (coerce result)
      \<and> suggestions (step cfg (Resolve c result) ?s) = coerce result"
    if pend: "tasks ?s c = Some (FetchPending q key a)" and alive: "c \<notin> aborted ?s"
      and cap: "1 \<le> maxCache cfg"
  proof -
    from fk [OF pend] have key: "key = toLowerCase q" .
    from cap have nonneg: "0 \<le> maxCache cfg" by simp
    then have "int (length (cacheRef init)) \<le> maxCache cfg" by (simp add: init_def)
    from cache_bound_run [OF nonneg this]
    have bound: "int (length (cacheRef ?s)) \<le> maxCache cfg" .
    from mapGet_cacheStore [OF cap bound, of key "coerce result"]
    show ?thesis
      using pend alive key
      by (simp add: step_def flushEffects_def fetchResolved_def highlightEffect_def Let_def)
  qed
  from read arm fire tk fk bk ck store show ?thesis by blast
qed

lemma afterMixedApple_fields:
  "timers (run defaultConfig [UpdateInput ''Apple''] init) 1
     = Some (Debounce ''Apple'' ''apple'' 300)"
  "tasks (run defaultConfig [UpdateInput ''Apple'', TimerFire 1] init) 0
     = Some (FetchPending ''Apple'' ''apple'' 0)"
  "0 \<notin> aborted (run defaultConfig [UpdateInput ''Apple'', TimerFire 1] init)"
  "cacheRef afterMixedApple = [(''apple'', [''apple pie''])]"
  "query afterMixedApple = ''Apple''"
  "calls afterMixedApple = [FetchCall ''Apple'' 0]"
  "loading afterMixedApple = False"
  by (simp_all add: afterMixedApple_def config_defs init_def hook_defs string_defs Let_def)

text \<open>
  C3 at \<open>Apple\<close> typed with a capital: it is fetched as typed and stored under
  \<open>apple\<close>, and \<open>apple\<close> as well as \<open>APPLE\<close> with a trailing space are then read from
  that entry.
\<close>

theorem cache_hit_is_synchronous_witness:
  "tasks (run defaultConfig [UpdateInput ''Apple'', TimerFire 1] init) 0
     = Some (FetchPending ''Apple'' ''apple'' 0)
   \<and> 0 \<notin> aborted (run defaultConfig [UpdateInput ''Apple'', TimerFire 1] init)
   \<and> 1 \<le> maxCache defaultConfig
   \<and> mapGet (cacheRef (step defaultConfig (Resolve 0 (Array [''apple pie'']))
        (run defaultConfig [UpdateInput ''Apple'', TimerFire 1] init))) (toLowerCase ''Apple'')
       = Some [''apple pie'']
   \<and> toLowerCase ''Apple'' = ''apple''
   \<and> mapGet (cacheRef (run defaultConfig
        [UpdateInput ''Apple'', TimerFire 1, Resolve 0 (Array [''apple pie''])] init)) ''apple''
       = Some [''apple pie'']
   \<and> toLowerCase (trim ''APPLE '') = ''apple''
   \<and> minChars defaultConfig \<le> int (length ''APPLE '')
   \<and> ''APPLE '' \<noteq> query (run defaultConfig
        [UpdateInput ''Apple'', TimerFire 1, Resolve 0 (Array [''apple pie''])] init)
   \<and> suggestions (step defaultConfig (UpdateInput ''APPLE '') afterMixedApple) = [''apple pie'']
   \<and> noResults (step defaultConfig (UpdateInput ''APPLE '') afterMixedApple) = False
   \<and> calls (step defaultConfig (UpdateInput ''APPLE '') afterMixedApple) = [FetchCall ''Apple'' 0]
   \<and> loading (step defaultConfig (UpdateInput ''APPLE '') afterMixedApple) = False
   \<and> toLowerCase (trim ''apple'') = ''apple''
   \<and> minChars defaultConfig \<le> int (length ''apple'')
   \<and> ''apple'' \<noteq> query (run defaultConfig
        [UpdateInput ''Apple'', TimerFire 1, Resolve 0 (Array [''apple pie''])] init)
   \<and> suggestions (step defaultConfig (UpdateInput ''apple'') afterMixedApple) = [''apple pie'']
   \<and> calls (step defaultConfig (UpdateInput ''apple'') afterMixedApple) = [FetchCall ''Apple'' 0]"
proof -
  let ?pre = "[UpdateInput ''Apple'', TimerFire 1]"
  let ?evs = "[UpdateInput ''Apple'', TimerFire 1, Resolve 0 (Array [''apple pie''])]"
  have st: "run defaultConfig ?evs init = afterMixedApple" by (simp add: afterMixedApple_def)
  have w1: "1 \<le> maxCache defaultConfig" by (simp add: config_defs)
  have w2: "toLowerCase ''Apple'' = ''apple''" by (simp add: string_defs)
  have h1: "mapGet (cacheRef (run defaultConfig ?evs init)) ''apple'' = Some [''apple pie'']"
    unfolding st by (simp add: afterMixedApple_fields mapGet_def)
  have h2: "toLowerCase (trim ''APPLE '') = ''apple''" by (simp add: string_defs)
  have h3: "minChars defaultConfig \<le> int (length ''APPLE '')" by (simp add: config_defs)
  have h4: "''APPLE '' \<noteq> query (run defaultConfig ?evs init)"
    unfolding st by (simp add: afterMixedApple_fields)
  have g2: "toLowerCase (trim ''apple'') = ''apple''" by (simp add: string_defs)
  have g3: "minChars defaultConfig \<le> int (length ''apple'')" by (simp add: config_defs)
  have g4: "''apple'' \<noteq> query (run defaultConfig ?evs init)"
    unfolding st by (simp add: afterMixedApple_fields)
  note wr = cache_hit_is_synchronous
    [of defaultConfig ?pre "''apple''" "[]" "[]" init 0 "''Apple''" "''apple''" 0 0 0
        "Array [''apple pie'']"]
  note up_inst = cache_hit_is_synchronous
    [of defaultConfig ?evs "''apple''" "[''apple pie'']" "''APPLE ''" init 0 "''Apple''"
        "''apple''" 0 0 0 NotArray]
  note lo_inst = cache_hit_is_synchronous
    [of defaultConfig ?evs "''apple''" "[''apple pie'']" "''apple''" init 0 "''Apple''"
        "''apple''" 0 0 0 NotArray]
  from wr afterMixedApple_fields(2,3) w1
  have stored: "mapGet (cacheRef (step defaultConfig (Resolve 0 (Array [''apple pie'']))
        (run defaultConfig ?pre init))) (toLowerCase ''Apple'') = Some [''apple pie'']"
    by simp
  from up_inst h1 h2 h3 h4
  have up: "suggestions (step defaultConfig (UpdateInput ''APPLE '') (run defaultConfig ?evs init))
              = [''apple pie'']
      \<and> noResults (step defaultConfig (UpdateInput ''APPLE '') (run defaultConfig ?evs init)) = False
      \<and> calls (step defaultConfig (UpdateInput ''APPLE '') (run defaultConfig ?evs init))
          = calls (run defaultConfig ?evs init)
      \<and> loading (step defaultConfig (UpdateInput ''APPLE '') (run defaultConfig ?evs init))
          = loading (run defaultConfig ?evs init)"
    by simp
  from lo_inst h1 g2 g3 g4
  have lo: "suggestions (step defaultConfig (UpdateInput ''apple'') (run defaultConfig ?evs init))
              = [''apple pie'']
      \<and> calls (step defaultConfig (UpdateInput ''apple'') (run defaultConfig ?evs init))
          = calls (run defaultConfig ?evs init)"
    by simp
  from stored up lo afterMixedApple_fields(2,3) w1 w2 h1 h2 h3 h4 g2 g3 g4
  show ?thesis unfolding st by (simp add: afterMixedApple_fields)
qed

subsection \<open>The retry loop\<close>

lemma retryOk_init: "retryOk init"
  by (simp add: retryOk_def attemptsOf_def init_def RETRY_ATTEMPTS_def)

lemma retryOk_handler:
  assumes ok: "retryOk s"
  shows "retryOk (handler cfg ev s)"
  unfolding retryOk_def
proof (intro allI)
  fix c'
  have at: "retryTaskOk (attemptsOf c s) (tasks s c)
            \<and> (nextController s \<le> c \<longrightarrow> tasks s c = None \<and> attemptsOf c s = 0)" for c
    using ok by (simp add: retryOk_def)
  let ?s' = "handler cfg ev s"
  show "retryTaskOk (attemptsOf c' ?s') (tasks ?s' c')
        \<and> (nextController ?s' \<le> c' \<longrightarrow> tasks ?s' c' = None \<and> attemptsOf c' ?s' = 0)"
  proof (cases ev)
    case (UpdateInput val)
    with at [of c'] show ?thesis by (simp add: updateInput_def attemptsOf_def Let_def)
  next
    case Clear
    with at [of c'] show ?thesis by (simp add: clear_def attemptsOf_def)
  next
    case (MoveHighlight d)
    with at [of c'] show ?thesis by (simp add: moveHighlight_def attemptsOf_def)
  next
    case (SetHighlightIndex i)
    with at [of c'] show ?thesis by (simp add: setHighlightIndex_def attemptsOf_def)
  next
    case (SetSuggestions xs)
    with at [of c'] show ?thesis by (simp add: setSuggestions_def attemptsOf_def)
  next
    case (HandleSelection v)
    with at [of c'] at [of "nextController s"] show ?thesis
      by (auto simp: handleSelection_def attemptsOf_def Let_def)
  next
    case (TimerFire t)
    with at [of c'] at [of "nextController s"] show ?thesis
      by (auto simp: timerFire_def attemptFetch_def attemptsOf_def Let_def RETRY_ATTEMPTS_def
            split: option.splits timer.splits)
  next
    case (Resolve c d)
    with at [of c'] at [of c] show ?thesis
      by (auto simp: fetchResolved_def selectionResolved_def attemptsOf_def Let_def
                RETRY_ATTEMPTS_def
            split: option.splits task.splits)
  next
    case (Reject c)
    with at [of c'] at [of c] show ?thesis
      by (auto simp: fetchRejected_def selectionRejected_def attemptsOf_def Let_def
                RETRY_ATTEMPTS_def
            split: option.splits task.splits)
  next
    case (BackoffDone c)
    with at [of c'] at [of c] show ?thesis
      by (auto simp: attemptFetch_def attemptsOf_def Let_def RETRY_ATTEMPTS_def
            split: option.splits task.splits)
  qed
qed

lemma effects_keep_tasks:
  "tasks (flushEffects cfg old s) = tasks s"
  "calls (flushEffects cfg old s) = calls s"
  "nextController (flushEffects cfg old s) = nextController s"
  by (simp_all add: flushEffects_def highlightEffect_def queryEffect_def cancelPending_def
        Let_def split: option.splits)

lemma retryOk_step: "retryOk s \<Longrightarrow> retryOk (step cfg ev s)"
  using retryOk_handler [of s cfg ev]
  by (simp add: retryOk_def step_def attemptsOf_def effects_keep_tasks)

lemma retryOk_run: "retryOk s \<Longrightarrow> retryOk (run cfg evs s)"
  by (induction evs arbitrary: s) (simp_all add: retryOk_step)

lemma attempts_bounded: "int (attemptsOf c (run cfg evs init)) \<le> RETRY_ATTEMPTS"
proof -
  have "retryOk (run cfg evs init)" by (rule retryOk_run [OF retryOk_init])
  then have "retryTaskOk (attemptsOf c (run cfg evs init)) (tasks (run cfg evs init) c)"
    by (simp add: retryOk_def)
  then show ?thesis
    by (cases "tasks (run cfg evs init) c"; cases "the (tasks (run cfg evs init) c)")
      (auto simp: RETRY_ATTEMPTS_def)
qed

text \<open>
  C5: the retry loop of one debounced fetch calls \<open>fetchFn\<close> at most \<open>maxAttempts\<close>
  times, whatever \<open>fetchFn\<close> does (\<open>maxAttempts\<close> is \<open>RETRY_ATTEMPTS = 2\<close>). A failure
  of attempt \<open>i < maxAttempts - 1\<close> that is not a cancellation writes nothing and
  suspends the loop on a timer of \<open>BACKOFF_BASE_MS * (i + 1)\<close>; the next attempt is made
  when that timer ends and not before. A failure of the last attempt that is not a
  cancellation sets \<open>error\<close> to \<open>Failed to fetch\<close>, \<open>suggestions\<close> to \<open>[]\<close> and
  \<open>loading\<close> to \<open>false\<close>, and ends the loop.
\<close>

theorem retry_is_bounded_with_linear_backoff:
  "int (attemptsOf c (run cfg evs init)) \<le> RETRY_ATTEMPTS
   \<and> RETRY_ATTEMPTS = 2 \<and> BACKOFF_BASE_MS = 150
   \<and> (tasks s c = Some (FetchPending q key i) \<and> c \<notin> aborted s \<and> i < RETRY_ATTEMPTS - 1
        \<longrightarrow> tasks (step cfg (Reject c) s) c
              = Some (BackoffWait q key i (BACKOFF_BASE_MS * (i + 1)))
          \<and> calls (step cfg (Reject c) s) = calls s
          \<and> error (step cfg (Reject c) s) = error s
          \<and> suggestions (step cfg (Reject c) s) = suggestions s
          \<and> loading (step cfg (Reject c) s) = loading s
          \<and> tasks (step cfg (BackoffDone c) (step cfg (Reject c) s)) c
              = Some (FetchPending q key (i + 1))
          \<and> calls (step cfg (BackoffDone c) (step cfg (Reject c) s))
              = calls s @ [FetchCall q c])
   \<and> (tasks s c = Some (FetchPending q key i) \<and> c \<notin> aborted s \<and> i = RETRY_ATTEMPTS - 1
        \<longrightarrow> error (step cfg (Reject c) s) = Some ''Failed to fetch''
          \<and> suggestions (step cfg (Reject c) s) = []
          \<and> loading (step cfg (Reject c) s) = False
          \<and> tasks (step cfg (Reject c) s) c = None
          \<and> calls (step cfg (Reject c) s) = calls s)"
proof -
  have retry: "tasks (step cfg (Reject c) s) c
              = Some (BackoffWait q key i (BACKOFF_BASE_MS * (i + 1)))
          \<and> calls (step cfg (Reject c) s) = calls s
          \<and> error (step cfg (Reject c) s) = error s
          \<and> suggestions (step cfg (Reject c) s) = suggestions s
          \<and> loading (step cfg (Reject c) s) = loading s
          \<and> tasks (step cfg (BackoffDone c) (step cfg (Reject c) s)) c
              = Some (FetchPending q key (i + 1))
          \<and> calls (step cfg (BackoffDone c) (step cfg (Reject c) s))
              = calls s @ [FetchCall q c]"
    if pend: "tasks s c = Some (FetchPending q key i)" and alive: "c \<notin> aborted s"
      and early: "i < RETRY_ATTEMPTS - 1"
  proof -
    let ?w = "s\<lparr> tasks := (tasks s)(c \<mapsto> BackoffWait q key i (BACKOFF_BASE_MS * (i + 1))) \<rparr>"
    have rej: "step cfg (Reject c) s = highlightEffect ?w"
      using pend alive early by (simp add: step_def flushEffects_def fetchRejected_def)
    have again: "step cfg (BackoffDone c) (highlightEffect ?w)
                   = highlightEffect (attemptFetch c q key (i + 1) (highlightEffect ?w))"
      by (simp add: step_def flushEffects_def highlightEffect_def Let_def attemptFetch_def)
    from early have lt: "i + 1 < RETRY_ATTEMPTS" by simp
    show ?thesis
      unfolding rej again using lt
      by (simp add: highlightEffect_def attemptFetch_def Let_def)
  qed
  have final: "error (step cfg (Reject c) s) = Some ''Failed to fetch''
          \<and> suggestions (step cfg (Reject c) s) = []
          \<and> loading (step cfg (Reject c) s) = False
          \<and> tasks (step cfg (Reject c) s) c = None
          \<and> calls (step cfg (Reject c) s) = calls s"
    if pend: "tasks s c = Some (FetchPending q key i)" and alive: "c \<notin> aborted s"
      and last: "i = RETRY_ATTEMPTS - 1"
    using that
    by (simp add: step_def flushEffects_def fetchRejected_def highlightEffect_def Let_def)
  have vals: "RETRY_ATTEMPTS = 2 \<and> BACKOFF_BASE_MS = 150"
    by (simp add: const_defs)
  from attempts_bounded [of c cfg evs] vals retry final show ?thesis by blast
qed

lemma alwaysFailing_fields:
  "tasks (run defaultConfig [UpdateInput ''a'', TimerFire 1] init) 0
     = Some (FetchPending ''a'' ''a'' 0)"
  "0 \<notin> aborted (run defaultConfig [UpdateInput ''a'', TimerFire 1] init)"
  "tasks (run defaultConfig [UpdateInput ''a'', TimerFire 1, Reject 0, BackoffDone 0] init) 0
     = Some (FetchPending ''a'' ''a'' 1)"
  "0 \<notin> aborted (run defaultConfig [UpdateInput ''a'', TimerFire 1, Reject 0, BackoffDone 0] init)"
  "calls (run defaultConfig alwaysFailingTrace init) = [FetchCall ''a'' 0, FetchCall ''a'' 0]"
  "error (run defaultConfig alwaysFailingTrace init) = Some ''Failed to fetch''"
  "suggestions (run defaultConfig alwaysFailingTrace init) = []"
  "loading (run defaultConfig alwaysFailingTrace init) = False"
  by (simp_all add: alwaysFailingTrace_def config_defs init_def hook_defs string_defs Let_def)

text \<open>
  C5 at a fetch of \<open>a\<close> that fails twice: the first failure waits \<open>150\<close>, the second
  is final, and \<open>fetchFn\<close> was called twice.
\<close>

theorem retry_is_bounded_with_linear_backoff_witness:
  "tasks (run defaultConfig [UpdateInput ''a'', TimerFire 1] init) 0
     = Some (FetchPending ''a'' ''a'' 0)
   \<and> 0 \<notin> aborted (run defaultConfig [UpdateInput ''a'', TimerFire 1] init)
   \<and> (0::int) < RETRY_ATTEMPTS - 1
   \<and> tasks (step defaultConfig (Reject 0)
              (run defaultConfig [UpdateInput ''a'', TimerFire 1] init)) 0
       = Some (BackoffWait ''a'' ''a'' 0 150)
   \<and> tasks (run defaultConfig [UpdateInput ''a'', TimerFire 1, Reject 0, BackoffDone 0] init) 0
       = Some (FetchPending ''a'' ''a'' 1)
   \<and> 0 \<notin> aborted (run defaultConfig [UpdateInput ''a'', TimerFire 1, Reject 0, BackoffDone 0] init)
   \<and> (1::int) = RETRY_ATTEMPTS - 1
   \<and> error (step defaultConfig (Reject 0)
              (run defaultConfig [UpdateInput ''a'', TimerFire 1, Reject 0, BackoffDone 0] init))
       = Some ''Failed to fetch''
   \<and> attemptsOf 0 (run defaultConfig alwaysFailingTrace init) = 2
   \<and> int (attemptsOf 0 (run defaultConfig alwaysFailingTrace init)) \<le> RETRY_ATTEMPTS"
proof -
  let ?s0 = "run defaultConfig [UpdateInput ''a'', TimerFire 1] init"
  let ?s1 = "run defaultConfig [UpdateInput ''a'', TimerFire 1, Reject 0, BackoffDone 0] init"
  have c1: "(0::int) < RETRY_ATTEMPTS - 1" and c2: "(1::int) = RETRY_ATTEMPTS - 1"
    by (simp_all add: const_defs)
  have n: "attemptsOf 0 (run defaultConfig alwaysFailingTrace init) = 2"
    by (simp add: attemptsOf_def alwaysFailing_fields)
  from retry_is_bounded_with_linear_backoff
         [of 0 defaultConfig alwaysFailingTrace ?s0 "''a''" "''a''" 0]
    retry_is_bounded_with_linear_backoff
         [of 0 defaultConfig alwaysFailingTrace ?s1 "''a''" "''a''" 1]
    alwaysFailing_fields(1-4) c1 c2 n
  show ?thesis by simp
qed

subsection \<open>\<open>handleSelection\<close>\<close>

lemma selectionCalls_handler:
  "selectionCalls (handler cfg ev s)
     = selectionCalls s + (if hasSelectionFn cfg \<and> isHandleSelection ev then 1 else 0)"
  by (cases ev)
    (auto simp: selectionCalls_def updateInput_def clear_def moveHighlight_def
       setHighlightIndex_def setSuggestions_def handleSelection_def timerFire_def
       attemptFetch_def fetchResolved_def fetchRejected_def selectionResolved_def
       selectionRejected_def Let_def
     split: option.splits task.splits timer.splits)

lemma selectionCalls_step:
  "selectionCalls (step cfg ev s)
     = selectionCalls s + (if hasSelectionFn cfg \<and> isHandleSelection ev then 1 else 0)"
  using selectionCalls_handler [of cfg ev s]
  by (simp add: selectionCalls_def step_def effects_keep_tasks)

lemma selectionCalls_run:
  "selectionCalls (run cfg evs s)
     = selectionCalls s + (if hasSelectionFn cfg then length (filter isHandleSelection evs) else 0)"
  by (induction evs arbitrary: s) (simp_all add: selectionCalls_step)

text \<open>
  C7: with a \<open>selectionFn\<close>, every call of \<open>handleSelection\<close> calls it once and nothing
  else ever calls it, so there is one attempt per selection: a failure ends the function
  without a retry or a wait. The function first sets \<open>loading\<close> and clears \<open>error\<close> and
  \<open>noResults\<close>. When its controller has been aborted, the continuation writes nothing,
  on success and on failure. Otherwise a failure sets \<open>error\<close> to
  \<open>Failed to fetch related suggestions\<close>, \<open>suggestions\<close> to \<open>[]\<close> and \<open>loading\<close> to
  \<open>false\<close>; a success replaces \<open>suggestions\<close> by the result, or by \<open>[]\<close> when the result
  is not an array, sets \<open>noResults\<close> accordingly, clears \<open>loading\<close> and sets the
  highlight to \<open>-1\<close>. Without a \<open>selectionFn\<close>, \<open>handleSelection\<close> changes nothing.
\<close>

theorem selection_is_one_attempt:
  "(hasSelectionFn cfg
      \<longrightarrow> selectionCalls (run cfg evs init) = length (filter isHandleSelection evs)
        \<and> calls (step cfg (HandleSelection val) s)
            = calls s @ [SelectionCall val (nextController s)]
        \<and> tasks (step cfg (HandleSelection val) s) (nextController s) = Some SelectionPending
        \<and> loading (step cfg (HandleSelection val) s) = True
        \<and> error (step cfg (HandleSelection val) s) = None
        \<and> noResults (step cfg (HandleSelection val) s) = False)
   \<and> (tasks s c = Some SelectionPending \<and> c \<in> aborted s
      \<longrightarrow> handler cfg (Resolve c data) s = s\<lparr> tasks := (tasks s)(c := None) \<rparr>
        \<and> handler cfg (Reject c) s = s\<lparr> tasks := (tasks s)(c := None) \<rparr>)
   \<and> (tasks s c = Some SelectionPending \<and> c \<notin> aborted s
      \<longrightarrow> error (step cfg (Reject c) s) = Some ''Failed to fetch related suggestions''
        \<and> suggestions (step cfg (Reject c) s) = []
        \<and> loading (step cfg (Reject c) s) = False
        \<and> tasks (step cfg (Reject c) s) c = None
        \<and> calls (step cfg (Reject c) s) = calls s
        \<and> suggestions (step cfg (Resolve c data) s) = coerce data
        \<and> noResults (step cfg (Resolve c data) s) = (coerce data = [])
        \<and> loading (step cfg (Resolve c data) s) = False
        \<and> highlight (step cfg (Resolve c data) s) = - 1
        \<and> error (step cfg (Resolve c data) s) = error s
        \<and> tasks (step cfg (Resolve c data) s) c = None
        \<and> calls (step cfg (Resolve c data) s) = calls s)
   \<and> coerce NotArray = []
   \<and> (\<not> hasSelectionFn cfg \<longrightarrow> handleSelection cfg val s = s)"
proof -
  have start: "selectionCalls (run cfg evs init) = length (filter isHandleSelection evs)
        \<and> calls (step cfg (HandleSelection val) s)
            = calls s @ [SelectionCall val (nextController s)]
        \<and> tasks (step cfg (HandleSelection val) s) (nextController s) = Some SelectionPending
        \<and> loading (step cfg (HandleSelection val) s) = True
        \<and> error (step cfg (HandleSelection val) s) = None
        \<and> noResults (step cfg (HandleSelection val) s) = False"
    if "hasSelectionFn cfg"
  proof -
    have "selectionCalls (run cfg evs init) = length (filter isHandleSelection evs)"
      using that by (simp add: selectionCalls_run) (simp add: selectionCalls_def init_def)
    moreover have "step cfg (HandleSelection val) s
                     = highlightEffect (handleSelection cfg val s)"
      using that by (simp add: step_def flushEffects_def handleSelection_def Let_def)
    ultimately show ?thesis
      using that by (simp add: highlightEffect_def handleSelection_def Let_def)
  qed
  have cancelled: "handler cfg (Resolve c data) s = s\<lparr> tasks := (tasks s)(c := None) \<rparr>
        \<and> handler cfg (Reject c) s = s\<lparr> tasks := (tasks s)(c := None) \<rparr>"
    if "tasks s c = Some SelectionPending" and "c \<in> aborted s"
    using that by (simp add: selectionResolved_def selectionRejected_def)
  have settled: "error (step cfg (Reject c) s) = Some ''Failed to fetch related suggestions''
        \<and> suggestions (step cfg (Reject c) s) = []
        \<and> loading (step cfg (Reject c) s) = False
        \<and> tasks (step cfg (Reject c) s) c = None
        \<and> calls (step cfg (Reject c) s) = calls s
        \<and> suggestions (step cfg (Resolve c data) s) = coerce data
        \<and> noResults (step cfg (Resolve c data) s) = (coerce data = [])
        \<and> loading (step cfg (Resolve c data) s) = False
        \<and> highlight (step cfg (Resolve c data) s) = - 1
        \<and> error (step cfg (Resolve c data) s) = error s
        \<and> tasks (step cfg (Resolve c data) s) c = None
        \<and> calls (step cfg (Resolve c data) s) = calls s"
    if "tasks s c = Some SelectionPending" and "c \<notin> aborted s"
    using that
    by (simp add: step_def flushEffects_def selectionResolved_def selectionRejected_def
          highlightEffect_def Let_def)
  have noop: "handleSelection cfg val s = s" if "\<not> hasSelectionFn cfg"
    using that by (simp add: handleSelection_def)
  from start cancelled settled noop show ?thesis by simp
qed

lemma selection_fields:
  "hasSelectionFn defaultConfig"
  "tasks (step defaultConfig (HandleSelection ''apple'') afterApple) 1 = Some SelectionPending"
  "1 \<notin> aborted (step defaultConfig (HandleSelection ''apple'') afterApple)"
  "nextController afterApple = 1"
  "tasks (step defaultConfig (UpdateInput ''pear'')
            (step defaultConfig (HandleSelection ''apple'') afterApple)) 1 = Some SelectionPending"
  "1 \<in> aborted (step defaultConfig (UpdateInput ''pear'')
            (step defaultConfig (HandleSelection ''apple'') afterApple))"
  by (simp_all add: afterApple_def config_defs init_def hook_defs string_defs Let_def)

text \<open>
  C7 after \<open>apple\<close> was fetched: a selection whose \<open>selectionFn\<close> answers with something
  that is not an array, one whose controller was aborted by the next keystroke, and a
  hook without \<open>selectionFn\<close>.
\<close>

theorem selection_is_one_attempt_witness:
  "hasSelectionFn defaultConfig
   \<and> selectionCalls (run defaultConfig selectionTrace init) = 2
   \<and> tasks (step defaultConfig (HandleSelection ''apple'') afterApple) 1 = Some SelectionPending
   \<and> 1 \<notin> aborted (step defaultConfig (HandleSelection ''apple'') afterApple)
   \<and> suggestions (step defaultConfig (Resolve 1 NotArray)
        (step defaultConfig (HandleSelection ''apple'') afterApple)) = []
   \<and> noResults (step defaultConfig (Resolve 1 NotArray)
        (step defaultConfig (HandleSelection ''apple'') afterApple)) = True
   \<and> error (step defaultConfig (Reject 1)
        (step defaultConfig (HandleSelection ''apple'') afterApple))
       = Some ''Failed to fetch related suggestions''
   \<and> tasks (step defaultConfig (UpdateInput ''pear'')
        (step defaultConfig (HandleSelection ''apple'') afterApple)) 1 = Some SelectionPending
   \<and> 1 \<in> aborted (step defaultConfig (UpdateInput ''pear'')
        (step defaultConfig (HandleSelection ''apple'') afterApple))
   \<and> suggestions (handler defaultConfig (Resolve 1 (Array [''apple tree'']))
        (step defaultConfig (UpdateInput ''pear'')
          (step defaultConfig (HandleSelection ''apple'') afterApple))) = [''apple pie'']
   \<and> \<not> hasSelectionFn (defaultConfig\<lparr> hasSelectionFn := False \<rparr>)
   \<and> handleSelection (defaultConfig\<lparr> hasSelectionFn := False \<rparr>) ''apple'' afterApple = afterApple"
proof -
  let ?sel = "step defaultConfig (HandleSelection ''apple'') afterApple"
  let ?typed = "step defaultConfig (UpdateInput ''pear'') ?sel"
  have n: "length (filter isHandleSelection selectionTrace) = 2"
    by (simp add: selectionTrace_def)
  have sug: "suggestions ?typed = [''apple pie'']"
    by (simp add: afterApple_def config_defs init_def hook_defs string_defs Let_def)
  from selection_is_one_attempt [of defaultConfig selectionTrace "''apple''" afterApple 1 NotArray]
    selection_is_one_attempt [of defaultConfig selectionTrace "''apple''" ?sel 1 NotArray]
    selection_is_one_attempt [of defaultConfig selectionTrace "''apple''" ?typed 1 "Array [''apple tree'']"]
    selection_is_one_attempt [of "defaultConfig\<lparr> hasSelectionFn := False \<rparr>" selectionTrace
        "''apple''" afterApple 1 NotArray]
    selection_fields n sug
  show ?thesis by simp
qed

subsection \<open>The configuration surface\<close>

text \<open>
  C8, as the claim states it, at an argument object with \<open>maxAttempts: 5\<close> and
  \<open>backoffBaseMs: 10\<close>: the hook waits \<open>150\<close> after the first failure and gives up
  after the second attempt.
\<close>

theorem retry_options_are_ignored:
  "map_of (otherProps fiveAttemptsParams) ''maxAttempts'' = Some 5
   \<and> map_of (otherProps fiveAttemptsParams) ''backoffBaseMs'' = Some 10
   \<and> tasks (run (destructure fiveAttemptsParams) [UpdateInput ''a'', TimerFire 1, Reject 0] init) 0
       = Some (BackoffWait ''a'' ''a'' 0 150)
   \<and> error (run (destructure fiveAttemptsParams) alwaysFailingTrace init) = Some ''Failed to fetch''
   \<and> tasks (run (destructure fiveAttemptsParams) alwaysFailingTrace init) 0 = None
   \<and> attemptsOf 0 (run (destructure fiveAttemptsParams) alwaysFailingTrace init) = 2"
  by (simp add: fiveAttemptsParams_def alwaysFailingTrace_def attemptsOf_def config_defs init_def
        hook_defs string_defs Let_def)

text \<open>
  C8 (amended): the options the hook reads are \<open>debounceMs\<close>, \<open>minChars\<close> and
  \<open>maxCache\<close>, with the defaults \<open>300\<close>, \<open>1\<close> and \<open>50\<close>, beside \<open>fetchFn\<close> and
  \<open>selectionFn\<close>. No other property of the argument reaches the hook. The retry policy
  of the primary fetch is not an option: for every argument it is two attempts and a
  backoff base of \<open>150\<close>.
\<close>

theorem retry_policy_is_fixed:
  "debounceMs (destructure p) = (case debounceMsGiven p of None \<Rightarrow> 300 | Some d \<Rightarrow> d)
   \<and> minChars (destructure p) = (case minCharsGiven p of None \<Rightarrow> 1 | Some n \<Rightarrow> n)
   \<and> maxCache (destructure p) = (case maxCacheGiven p of None \<Rightarrow> 50 | Some n \<Rightarrow> n)
   \<and> destructure (p\<lparr> otherProps := props \<rparr>) = destructure p
   \<and> int (attemptsOf c (run (destructure p) evs init)) \<le> 2
   \<and> (tasks s c = Some (FetchPending q key 0) \<and> c \<notin> aborted s
        \<longrightarrow> tasks (step (destructure p) (Reject c) s) c = Some (BackoffWait q key 0 150))
   \<and> (tasks s c = Some (FetchPending q key 1) \<and> c \<notin> aborted s
        \<longrightarrow> error (step (destructure p) (Reject c) s) = Some ''Failed to fetch''
          \<and> tasks (step (destructure p) (Reject c) s) c = None)"
proof -
  have opts: "debounceMs (destructure p) = (case debounceMsGiven p of None \<Rightarrow> 300 | Some d \<Rightarrow> d)
   \<and> minChars (destructure p) = (case minCharsGiven p of None \<Rightarrow> 1 | Some n \<Rightarrow> n)
   \<and> maxCache (destructure p) = (case maxCacheGiven p of None \<Rightarrow> 50 | Some n \<Rightarrow> n)
   \<and> destructure (p\<lparr> otherProps := props \<rparr>) = destructure p"
    by (simp add: destructure_def const_defs split: option.splits)
  have bound: "int (attemptsOf c (run (destructure p) evs init)) \<le> 2"
    using attempts_bounded [of c "destructure p" evs] by (simp add: RETRY_ATTEMPTS_def)
  have first: "tasks (step (destructure p) (Reject c) s) c = Some (BackoffWait q key 0 150)"
    if "tasks s c = Some (FetchPending q key 0)" and "c \<notin> aborted s"
    using that
    by (simp add: step_def flushEffects_def fetchRejected_def highlightEffect_def Let_def
          const_defs)
  have second: "error (step (destructure p) (Reject c) s) = Some ''Failed to fetch''
          \<and> tasks (step (destructure p) (Reject c) s) c = None"
    if "tasks s c = Some (FetchPending q key 1)" and "c \<notin> aborted s"
    using that
    by (simp add: step_def flushEffects_def fetchRejected_def highlightEffect_def Let_def
          const_defs)
  from opts bound first second show ?thesis by simp
qed

text \<open>The amended C8 at the argument with \<open>maxAttempts: 5\<close> and a failing fetch of \<open>a\<close>.\<close>

theorem retry_policy_is_fixed_witness:
  "tasks (run defaultConfig [UpdateInput ''a'', TimerFire 1] init) 0
     = Some (FetchPending ''a'' ''a'' 0)
   \<and> 0 \<notin> aborted (run defaultConfig [UpdateInput ''a'', TimerFire 1] init)
   \<and> tasks (step (destructure fiveAttemptsParams) (Reject 0)
        (run defaultConfig [UpdateInput ''a'', TimerFire 1] init)) 0
       = Some (BackoffWait ''a'' ''a'' 0 150)
   \<and> tasks (run defaultConfig [UpdateInput ''a'', TimerFire 1, Reject 0, BackoffDone 0] init) 0
       = Some (FetchPending ''a'' ''a'' 1)
   \<and> 0 \<notin> aborted (run defaultConfig [UpdateInput ''a'', TimerFire 1, Reject 0, BackoffDone 0] init)
   \<and> error (step (destructure fiveAttemptsParams) (Reject 0)
        (run defaultConfig [UpdateInput ''a'', TimerFire 1, Reject 0, BackoffDone 0] init))
       = Some ''Failed to fetch''
   \<and> destructure fiveAttemptsParams = defaultConfig
   \<and> debounceMs (destructure fiveAttemptsParams) = 300"
proof -
  let ?s0 = "run defaultConfig [UpdateInput ''a'', TimerFire 1] init"
  let ?s1 = "run defaultConfig [UpdateInput ''a'', TimerFire 1, Reject 0, BackoffDone 0] init"
  have same: "destructure fiveAttemptsParams = defaultConfig"
    by (simp add: fiveAttemptsParams_def config_defs)
  have given: "debounceMsGiven fiveAttemptsParams = None"
    by (simp add: fiveAttemptsParams_def defaultParams_def)
  from retry_policy_is_fixed [of fiveAttemptsParams "[]" 0 "[]" ?s0 "''a''" "''a''"]
    retry_policy_is_fixed [of fiveAttemptsParams "[]" 0 "[]" ?s1 "''a''" "''a''"]
    alwaysFailing_fields(1-4) same given
  show ?thesis by simp
qed

subsection \<open>Overlapping requests\<close>

text \<open>
  C1 on the code: \<open>handleSelection\<close> stores its new controller in \<open>abortRef\<close> without
  aborting the one held there, and so does the timer callback. After
  \<open>handleSelection\<close> is called while the fetch of \<open>a\<close> is in flight, two suspended
  functions are live; the fetch of \<open>a\<close> then resolves and writes \<open>suggestions\<close>,
  \<open>loading\<close> and the cache while the selection is still in flight. The same holds when
  the debounce timer fires while a selection is in flight.
\<close>

theorem selection_leaves_fetch_live:
  "live (run defaultConfig selectionDuringFetch init) 0
   \<and> live (run defaultConfig selectionDuringFetch init) 1
   \<and> abortRef (run defaultConfig selectionDuringFetch init) = Some 1
   \<and> tasks (run defaultConfig selectionDuringFetch init) 0 = Some (FetchPending ''a'' ''a'' 0)
   \<and> tasks (run defaultConfig selectionDuringFetch init) 1 = Some SelectionPending
   \<and> suggestions (run defaultConfig selectionDuringFetch init) = []
   \<and> loading (run defaultConfig selectionDuringFetch init) = True
   \<and> cacheRef (run defaultConfig selectionDuringFetch init) = []
   \<and> suggestions (step defaultConfig (Resolve 0 (Array [''ant'']))
        (run defaultConfig selectionDuringFetch init)) = [''ant'']
   \<and> loading (step defaultConfig (Resolve 0 (Array [''ant'']))
        (run defaultConfig selectionDuringFetch init)) = False
   \<and> cacheRef (step defaultConfig (Resolve 0 (Array [''ant'']))
        (run defaultConfig selectionDuringFetch init)) = [(''a'', [''ant''])]
   \<and> live (step defaultConfig (Resolve 0 (Array [''ant'']))
        (run defaultConfig selectionDuringFetch init)) 1
   \<and> live (run defaultConfig selectionDuringDebounce init) 0
   \<and> live (run defaultConfig selectionDuringDebounce init) 1
   \<and> tasks (run defaultConfig selectionDuringDebounce init) 0 = Some SelectionPending
   \<and> tasks (run defaultConfig selectionDuringDebounce init) 1 = Some (FetchPending ''a'' ''a'' 0)"
  by (simp add: selectionDuringFetch_def selectionDuringDebounce_def live_def config_defs
        init_def hook_defs string_defs Let_def)

text \<open>
  C2 on the code: the query effect aborts the controller held in \<open>abortRef\<close>, which
  after a call of \<open>handleSelection\<close> is not the controller of the fetch in flight.
  The query \<open>app\<close> is superseded by \<open>apple\<close> while its fetch is in flight; the
  fetch of \<open>app\<close> resolves afterwards and its result replaces the suggestions and
  clears \<open>loading\<close>.
\<close>

theorem superseded_fetch_overwrites:
  "query (run defaultConfig pickWhileFetching init) = ''apple''
   \<and> tasks (run defaultConfig pickWhileFetching init) 1 = Some (FetchPending ''app'' ''app'' 0)
   \<and> 1 \<notin> aborted (run defaultConfig pickWhileFetching init)
   \<and> 2 \<in> aborted (run defaultConfig pickWhileFetching init)
   \<and> suggestions (run defaultConfig pickWhileFetching init) = []
   \<and> loading (run defaultConfig pickWhileFetching init) = True
   \<and> query (step defaultConfig (Resolve 1 (Array [''application'']))
        (run defaultConfig pickWhileFetching init)) = ''apple''
   \<and> suggestions (step defaultConfig (Resolve 1 (Array [''application'']))
        (run defaultConfig pickWhileFetching init)) = [''application'']
   \<and> loading (step defaultConfig (Resolve 1 (Array [''application'']))
        (run defaultConfig pickWhileFetching init)) = False
   \<and> cacheRef (step defaultConfig (Resolve 1 (Array [''application'']))
        (run defaultConfig pickWhileFetching init))
       = [(''ap'', [''apple'', ''apricot'']), (''app'', [''application''])]"
  by (simp add: pickWhileFetching_def config_defs init_def hook_defs string_defs Let_def)

subsection \<open>Cancellation on the query path\<close>

text \<open>The query effect aborts the controller held in \<open>abortRef\<close> and disarms the timer.\<close>

lemma cancelPending_aborts: "abortRef s = Some c \<Longrightarrow> c \<in> aborted (cancelPending s)"
  by (simp add: cancelPending_def)

lemma queryEffect_aborted:
  "aborted (queryEffect cfg s) = aborted (cancelPending s)"
  by (simp add: queryEffect_def cancelPending_def Let_def split: option.splits)

lemma query_change_aborts_current:
  assumes "abortRef s = Some c" and "minChars cfg \<le> int (length val)" and "val \<noteq> query s"
  shows "c \<in> aborted (step cfg (UpdateInput val) s)"
  using assms
  by (simp add: step_def flushEffects_def updateInput_def highlightEffect_def Let_def
        queryEffect_aborted cancelPending_def)

text \<open>Nothing ever removes a controller from the aborted ones.\<close>

lemma aborted_handler: "aborted s \<subseteq> aborted (handler cfg ev s)"
  by (cases ev)
    (auto simp: updateInput_def clear_def moveHighlight_def setHighlightIndex_def
       setSuggestions_def handleSelection_def timerFire_def attemptFetch_def
       fetchResolved_def fetchRejected_def selectionResolved_def selectionRejected_def Let_def
     split: option.splits task.splits timer.splits)

lemma aborted_step: "aborted s \<subseteq> aborted (step cfg ev s)"
proof -
  have "aborted s' \<subseteq> aborted (flushEffects cfg old s')" for old s'
    by (auto simp: flushEffects_def highlightEffect_def Let_def queryEffect_aborted
          cancelPending_def split: option.splits)
  with aborted_handler [of s cfg ev] show ?thesis
    unfolding step_def by blast
qed

lemma aborted_run: "aborted s \<subseteq> aborted (run cfg evs s)"
proof (induction evs arbitrary: s)
  case Nil
  show ?case by simp
next
  case (Cons ev evs)
  from aborted_step [of s cfg ev] Cons [of "step cfg ev s"] show ?case by auto
qed

text \<open>The continuations of an aborted controller write nothing.\<close>

lemma aborted_writes_nothing:
  assumes "c \<in> aborted s"
  shows "handler cfg (Resolve c data) s = s \<or>
         handler cfg (Resolve c data) s = s\<lparr> tasks := (tasks s)(c := None) \<rparr>"
    and "handler cfg (Reject c) s = s \<or>
         handler cfg (Reject c) s = s\<lparr> tasks := (tasks s)(c := None) \<rparr>"
  using assms
  by (auto simp: fetchResolved_def fetchRejected_def selectionResolved_def
        selectionRejected_def Let_def split: option.splits task.splits)

subsection \<open>One live request on the query path\<close>

lemma soleOk_init: "soleOk init"
  by (simp add: soleOk_def live_def init_def)

lemma soleOk_highlightEffect: "soleOk s \<Longrightarrow> soleOk (highlightEffect s)"
  by (simp add: soleOk_def live_def highlightEffect_def Let_def)

lemma soleOk_queryEffect:
  assumes ok: "soleOk s"
  shows "soleOk (queryEffect cfg s)"
proof -
  let ?s1 = "cancelPending s"
  have none: "timers ?s1 t = None" for t
    using ok by (auto simp: soleOk_def cancelPending_def split: option.splits)
  have dead: "\<not> live ?s1 c" for c
    using ok by (auto simp: soleOk_def live_def cancelPending_def split: option.splits)
  have dead': "tasks ?s1 c = None" if "c \<notin> aborted ?s1" for c
    using dead [of c] that by (simp add: live_def)
  show ?thesis
    by (auto simp: queryEffect_def Let_def soleOk_def live_def none dead' split: option.splits)
qed

lemma soleOk_handler:
  assumes ok: "soleOk s" and nosel: "\<not> hasSelectionFn cfg"
  shows "soleOk (handler cfg ev s)"
proof (cases ev)
  case (TimerFire t)
  show ?thesis
  proof (cases "timers s t")
    case None
    with TimerFire ok show ?thesis by (simp add: timerFire_def)
  next
    case (Some tm)
    obtain q key d where tm: "tm = Debounce q key d" by (cases tm)
    from ok Some have ref: "debounceRef s = Some t" and dead: "\<not> live s c" for c
      by (auto simp: soleOk_def)
    from ok ref have only: "timers s t' \<noteq> None \<Longrightarrow> t' = t" for t'
      by (auto simp: soleOk_def)
    have gone: "((timers s)(t := None)) t' = None" for t'
      using only [of t'] by (cases "timers s t'") auto
    from dead have dead': "tasks s c = None \<or> c \<in> aborted s" for c
      by (auto simp: live_def)
    show ?thesis
      using TimerFire Some tm gone dead'
      by (auto simp: timerFire_def attemptFetch_def Let_def soleOk_def live_def)
  qed
next
  case (Resolve c data)
  have "live (handler cfg (Resolve c data) s) c' \<Longrightarrow> live s c'" for c'
    by (auto simp: live_def fetchResolved_def selectionResolved_def Let_def
          split: option.splits task.splits if_splits)
  moreover have "timers (handler cfg (Resolve c data) s) = timers s"
    and "abortRef (handler cfg (Resolve c data) s) = abortRef s"
    and "debounceRef (handler cfg (Resolve c data) s) = debounceRef s"
    by (auto simp: fetchResolved_def selectionResolved_def Let_def
          split: option.splits task.splits)
  ultimately show ?thesis using ok Resolve unfolding soleOk_def by metis
next
  case (Reject c)
  have "live (handler cfg (Reject c) s) c' \<Longrightarrow> live s c'" for c'
    by (auto simp: live_def fetchRejected_def selectionRejected_def Let_def
          split: option.splits task.splits if_splits)
  moreover have "timers (handler cfg (Reject c) s) = timers s"
    and "abortRef (handler cfg (Reject c) s) = abortRef s"
    and "debounceRef (handler cfg (Reject c) s) = debounceRef s"
    by (auto simp: fetchRejected_def selectionRejected_def Let_def
          split: option.splits task.splits)
  ultimately show ?thesis using ok Reject unfolding soleOk_def by metis
next
  case (BackoffDone c)
  have "live (handler cfg (BackoffDone c) s) c' \<Longrightarrow> live s c'" for c'
    by (auto simp: live_def attemptFetch_def Let_def
          split: option.splits task.splits if_splits)
  moreover have "timers (handler cfg (BackoffDone c) s) = timers s"
    and "abortRef (handler cfg (BackoffDone c) s) = abortRef s"
    and "debounceRef (handler cfg (BackoffDone c) s) = debounceRef s"
    by (auto simp: attemptFetch_def Let_def split: option.splits task.splits)
  ultimately show ?thesis using ok BackoffDone unfolding soleOk_def by metis
qed (use ok nosel in \<open>auto simp: soleOk_def live_def updateInput_def clear_def moveHighlight_def
      setHighlightIndex_def setSuggestions_def handleSelection_def Let_def\<close>)

lemma soleOk_step: "soleOk s \<Longrightarrow> \<not> hasSelectionFn cfg \<Longrightarrow> soleOk (step cfg ev s)"
  by (simp add: step_def flushEffects_def soleOk_highlightEffect soleOk_queryEffect soleOk_handler)

lemma soleOk_run: "soleOk s \<Longrightarrow> \<not> hasSelectionFn cfg \<Longrightarrow> soleOk (run cfg evs s)"
  by (induction evs arbitrary: s) (simp_all add: soleOk_step)

text \<open>
  Without a \<open>selectionFn\<close> at most one suspended function is live in any reachable
  state, and it runs under the controller in \<open>abortRef\<close>, which the next change of the
  query aborts.
\<close>

lemma query_path_one_live:
  assumes "\<not> hasSelectionFn cfg"
      and "live (run cfg evs init) c" and "live (run cfg evs init) c'"
  shows "c = c'" and "abortRef (run cfg evs init) = Some c"
proof -
  have "soleOk (run cfg evs init)"
    by (rule soleOk_run [OF soleOk_init assms(1)])
  then have ref: "abortRef (run cfg evs init) = Some x" if "live (run cfg evs init) x" for x
    using that unfolding soleOk_def by blast
  from ref [OF assms(2)] show "abortRef (run cfg evs init) = Some c" .
  from ref [OF assms(2)] ref [OF assms(3)] show "c = c'" by simp
qed

text \<open>
  Without a \<open>selectionFn\<close>, a query that supersedes another while its fetch is live
  aborts that fetch, and the late result or failure of the fetch writes nothing, whatever
  happens in between.
\<close>

lemma query_path_superseded_is_discarded:
  assumes nosel: "\<not> hasSelectionFn cfg"
      and alive: "live (run cfg evs init) c"
      and len: "minChars cfg \<le> int (length val)"
      and new: "val \<noteq> query (run cfg evs init)"
  shows "c \<in> aborted (run cfg later (step cfg (UpdateInput val) (run cfg evs init)))"
proof -
  from query_path_one_live(2) [OF nosel alive alive]
  have "abortRef (run cfg evs init) = Some c" .
  from query_change_aborts_current [OF this len new]
  show ?thesis using aborted_run by blast
qed

subsection \<open>The earlier copy and the case of a query\<close>

text \<open>
  With \<open>apple\<close> in the cache, the query \<open>APPLE\<close> is a hit for the hook and a miss for
  its earlier copy, which arms a debounce timer; the same query in the same case is a hit
  for both.
\<close>

lemma earlier_copy_is_case_sensitive:
  "suggestions (queryEffect defaultConfig (afterApple\<lparr> query := ''APPLE'', suggestions := [] \<rparr>))
     = [''apple pie'']"
  "timers (queryEffect defaultConfig (afterApple\<lparr> query := ''APPLE'', suggestions := [] \<rparr>)) 2
     = None"
  "suggestions (queryEffectEarlier defaultConfig (afterApple\<lparr> query := ''APPLE'', suggestions := [] \<rparr>))
     = []"
  "timers (queryEffectEarlier defaultConfig (afterApple\<lparr> query := ''APPLE'', suggestions := [] \<rparr>)) 2
     = Some (Debounce ''APPLE'' ''APPLE'' 300)"
  "suggestions (queryEffectEarlier defaultConfig (afterApple\<lparr> query := ''apple '', suggestions := [] \<rparr>))
     = [''apple pie'']"
  by (simp_all add: queryEffectEarlier_def afterApple_def config_defs init_def hook_defs
        string_defs Let_def)

end
